theory Spec2Isabelle
  imports Main "HOL-Library.Word" "HOL-Library.Sublist"
begin

section \<open>The parsed document tree\<close>

text \<open>
  The program reads trees of \<^verbatim>\<open>html.Node\<close> and never writes them. Of a node it uses the
  fields \<^verbatim>\<open>Type\<close>, \<^verbatim>\<open>DataAtom\<close>, \<^verbatim>\<open>Data\<close>, \<^verbatim>\<open>Attr\<close>, \<^verbatim>\<open>FirstChild\<close> and
  \<^verbatim>\<open>NextSibling\<close>. A pointer \<^verbatim>\<open>*html.Node\<close> is a \<open>Node option\<close>, with \<open>None\<close> for
  \<^verbatim>\<open>nil\<close>; a function that dereferences its argument takes a \<open>Node\<close>, so that every
  call the source makes with a pointer that may be \<^verbatim>\<open>nil\<close> has to say what happens then.
\<close>

datatype NodeType =
  ErrorNode | TextNode | DocumentNode | ElementNode | CommentNode | DoctypeNode | RawNode

text \<open>
  \<^verbatim>\<open>atom.Atom\<close> is an integer code of a known tag name; the program compares codes for
  equality only. The four tags it names are constructors, every other code (0 for a text
  node or an unknown tag) is \<open>OtherAtom\<close>.
\<close>

datatype Atom = Table | Tr | Th | Td | OtherAtom "32 word"

datatype Attribute = Attribute (Namespace: string) (Key: string) (Val: string)

datatype Node = Node
  (Type: NodeType)
  (DataAtom: Atom)
  (Data: string)
  (Attr: "Attribute list")
  (FirstChild: "Node option")
  (NextSibling: "Node option")

type_synonym nodeConditionFunc = "Node \<Rightarrow> bool"

subsection \<open>Tree search primitives\<close>

text \<open>
  \<^verbatim>\<open>findDescendant\<close> (lines 41-52). \<open>findDescendant_loop\<close> is the \<^verbatim>\<open>for\<close> loop, entered
  with the current \<^verbatim>\<open>child\<close> pointer.
\<close>

function findDescendant :: "Node \<Rightarrow> nodeConditionFunc \<Rightarrow> Node option"
  and findDescendant_loop :: "Node option \<Rightarrow> nodeConditionFunc \<Rightarrow> Node option"
where
  "findDescendant node conditionFunc = findDescendant_loop (FirstChild node) conditionFunc"
| "findDescendant_loop None conditionFunc = None"
| "findDescendant_loop (Some child) conditionFunc =
     (if conditionFunc child then Some child
      else (case findDescendant child conditionFunc of
              Some res \<Rightarrow> Some res
            | None \<Rightarrow> findDescendant_loop (NextSibling child) conditionFunc))"
  by pat_completeness auto

lemma size_FirstChild: "size_option size (FirstChild n) < size n"
  by (cases n) simp

lemma size_NextSibling: "size_option size (NextSibling n) < size n"
  by (cases n) simp

lemma size_NextSibling_Suc [termination_simp]:
  "size_option size (NextSibling n) < Suc (size n)"
  using size_NextSibling [of n] by simp

termination findDescendant
proof (relation "measure (case_sum (\<lambda>(n, c). 2 * size n) (\<lambda>(p, c). 2 * size_option size p + 1))")
  show "wf (measure (case_sum (\<lambda>(n, c). 2 * size n) (\<lambda>(p, c). 2 * size_option size p + 1)))"
    by simp
next
  fix node :: Node and conditionFunc :: nodeConditionFunc
  show "(Inr (FirstChild node, conditionFunc), Inl (node, conditionFunc))
      \<in> measure (case_sum (\<lambda>(n, c). 2 * size n) (\<lambda>(p, c). 2 * size_option size p + 1))"
    using size_FirstChild [of node] by simp
next
  fix child :: Node and conditionFunc :: nodeConditionFunc
  show "(Inl (child, conditionFunc), Inr (Some child, conditionFunc))
      \<in> measure (case_sum (\<lambda>(n, c). 2 * size n) (\<lambda>(p, c). 2 * size_option size p + 1))"
    by simp
next
  fix child :: Node and conditionFunc :: nodeConditionFunc
  show "(Inr (NextSibling child, conditionFunc), Inr (Some child, conditionFunc))
      \<in> measure (case_sum (\<lambda>(n, c). 2 * size n) (\<lambda>(p, c). 2 * size_option size p + 1))"
    using size_NextSibling [of child] by simp
qed

text \<open>
  \<^verbatim>\<open>findFollowupSibling\<close> (lines 54-61); \<open>findFollowupSibling_loop\<close> is its loop over the
  later siblings, for the \<^verbatim>\<open>DataAtom\<close> of the start node.
\<close>

fun findFollowupSibling_loop :: "Atom \<Rightarrow> Node option \<Rightarrow> Node option" where
  "findFollowupSibling_loop a None = None"
| "findFollowupSibling_loop a (Some sibling) =
     (if a = DataAtom sibling then Some sibling
      else findFollowupSibling_loop a (NextSibling sibling))"

definition findFollowupSibling :: "Node \<Rightarrow> Node option" where
  "findFollowupSibling node = findFollowupSibling_loop (DataAtom node) (NextSibling node)"

subsection \<open>Field extractors\<close>

text \<open>\<^verbatim>\<open>getAttribute\<close> (lines 63-70): the value of the first attribute with the key.\<close>

fun getAttribute_loop :: "Attribute list \<Rightarrow> string \<Rightarrow> string" where
  "getAttribute_loop [] k = ''''"
| "getAttribute_loop (attr # rest) k =
     (if Key attr = k then Val attr else getAttribute_loop rest k)"

definition getAttribute :: "Node \<Rightarrow> string \<Rightarrow> string" where
  "getAttribute node k = getAttribute_loop (Attr node) k"

text \<open>\<^verbatim>\<open>getInnerText\<close> (lines 72-81); \<open>getInnerText_loop\<close> is its loop over the children.\<close>

function getInnerText :: "Node \<Rightarrow> string"
  and getInnerText_loop :: "Node option \<Rightarrow> string"
where
  "getInnerText node =
     (if Type node = TextNode then Data node else getInnerText_loop (FirstChild node))"
| "getInnerText_loop None = ''''"
| "getInnerText_loop (Some child) = getInnerText child @ getInnerText_loop (NextSibling child)"
  by pat_completeness auto

termination getInnerText
proof (relation "measure (case_sum (\<lambda>n. 2 * size n) (\<lambda>p. 2 * size_option size p + 1))")
  show "wf (measure (case_sum (\<lambda>n. 2 * size n) (\<lambda>p. 2 * size_option size p + 1)))"
    by simp
next
  fix node :: Node
  show "(Inr (FirstChild node), Inl node)
      \<in> measure (case_sum (\<lambda>n. 2 * size n) (\<lambda>p. 2 * size_option size p + 1))"
    using size_FirstChild [of node] by simp
next
  fix child :: Node
  show "(Inl child, Inr (Some child))
      \<in> measure (case_sum (\<lambda>n. 2 * size n) (\<lambda>p. 2 * size_option size p + 1))"
    by simp
next
  fix child :: Node
  show "(Inr (NextSibling child), Inr (Some child))
      \<in> measure (case_sum (\<lambda>n. 2 * size n) (\<lambda>p. 2 * size_option size p + 1))"
    using size_NextSibling [of child] by simp
qed


text \<open>
  Both search functions return a node of the tree below (or after) their argument, which is
  why the loops of the two passes, which follow \<^verbatim>\<open>findFollowupSibling\<close>, come to an end.
\<close>

lemma size_findFollowupSibling_loop:
  "size_option size (findFollowupSibling_loop a p) \<le> size_option size p"
proof (induction a p rule: findFollowupSibling_loop.induct)
  case (1 a)
  show ?case by simp
next
  case (2 a sibling)
  then show ?case
    using size_NextSibling [of sibling] by (cases "a = DataAtom sibling") auto
qed

lemma size_findFollowupSibling [termination_simp]:
  "size_option size (findFollowupSibling node) < Suc (size node)"
  using size_findFollowupSibling_loop [of "DataAtom node" "NextSibling node"]
    size_NextSibling [of node]
  by (simp add: findFollowupSibling_def)

lemma size_findFollowupSibling_Some:
  "findFollowupSibling node = Some node2 \<Longrightarrow> size node2 < size node"
  using size_findFollowupSibling_loop [of "DataAtom node" "NextSibling node"]
    size_NextSibling [of node]
  by (simp add: findFollowupSibling_def)

lemma size_findFollowupSibling_twice [termination_simp]:
  "findFollowupSibling node = Some node2 \<Longrightarrow>
   size_option size (findFollowupSibling node2) < Suc (size node)"
  using size_findFollowupSibling [of node2] size_findFollowupSibling_Some [of node node2]
  by simp

section \<open>Library functions the program calls\<close>

text \<open>
  These are functions of Go's standard library, written out from their documented behaviour
  for the arguments the program passes.

  \<^verbatim>\<open>strings.Trim(s, cutset)\<close> removes the leading and the trailing characters that occur
  in \<open>cutset\<close>. The cutsets of the program are ASCII, so trimming bytes and trimming code
  points agree.
\<close>

definition Trim :: "string \<Rightarrow> string \<Rightarrow> string" where
  "Trim s cutset =
     rev (dropWhile (\<lambda>c. c \<in> set cutset) (rev (dropWhile (\<lambda>c. c \<in> set cutset) s)))"

text \<open>
  \<^verbatim>\<open>strings.ReplaceAll(s, old, new)\<close> for a non-empty \<open>old\<close>: the non-overlapping
  occurrences of \<open>old\<close>, from the left, become \<open>new\<close>. (An empty \<open>old\<close>, which the
  program never passes, leaves \<open>s\<close> as it is here.)
\<close>

fun ReplaceAll :: "string \<Rightarrow> string \<Rightarrow> string \<Rightarrow> string" where
  "ReplaceAll [] old new = []"
| "ReplaceAll (c # cs) old new =
     (if old \<noteq> [] \<and> take (length old) (c # cs) = old
      then new @ ReplaceAll (drop (length old) (c # cs)) old new
      else c # ReplaceAll cs old new)"

text \<open>
  \<^verbatim>\<open>strconv.ParseUint\<close> and \<^verbatim>\<open>strconv.ParseInt\<close>, for a base from 2 to 36 given
  explicitly (so an underscore is a syntax error) and a bit size from 1 to 64. The
  accumulator \<open>n\<close> is a \<^verbatim>\<open>uint64\<close>: it is a \<open>nat\<close> here, and the two overflow tests of
  the source (\<^verbatim>\<open>n >= cutoff\<close> before the multiplication, \<^verbatim>\<open>n1 < n\<close> after the
  addition) are the tests that the exact value has left 64 bits.
\<close>

datatype NumError = ErrSyntax | ErrRange

definition digitVal :: "char \<Rightarrow> nat option" where
  "digitVal c =
     (let b = (of_char c :: nat) in
      if 48 \<le> b \<and> b \<le> 57 then Some (b - 48)
      else if 97 \<le> b \<and> b \<le> 122 then Some (b - 97 + 10)
      else if 65 \<le> b \<and> b \<le> 90 then Some (b - 65 + 10)
      else None)"

fun ParseUint_loop :: "nat \<Rightarrow> nat \<Rightarrow> nat \<Rightarrow> nat \<Rightarrow> string \<Rightarrow> NumError + nat" where
  "ParseUint_loop base cutoff maxVal n [] = Inr n"
| "ParseUint_loop base cutoff maxVal n (c # cs) =
     (case digitVal c of
        None \<Rightarrow> Inl ErrSyntax
      | Some d \<Rightarrow>
          if d \<ge> base then Inl ErrSyntax
          else if n \<ge> cutoff then Inl ErrRange
          else (let n1 = n * base + d in
                if n1 \<ge> 2 ^ 64 \<or> n1 > maxVal then Inl ErrRange
                else ParseUint_loop base cutoff maxVal n1 cs))"

definition ParseUint :: "string \<Rightarrow> nat \<Rightarrow> nat \<Rightarrow> NumError + nat" where
  "ParseUint s base bitSize =
     (if s = [] then Inl ErrSyntax
      else ParseUint_loop base ((2 ^ 64 - 1) div base + 1) (2 ^ bitSize - 1) 0 s)"

type_synonym int64 = "64 word"

text \<open>
  On a range error \<^verbatim>\<open>ParseUint\<close> returns the largest value of the bit size beside the
  error, and \<^verbatim>\<open>ParseInt\<close> goes on to its own range test with it.
\<close>

definition ParseInt :: "string \<Rightarrow> nat \<Rightarrow> nat \<Rightarrow> NumError + int64" where
  "ParseInt s base bitSize =
     (if s = [] then Inl ErrSyntax
      else
        (let neg = (hd s = CHR ''-'');
             s1 = (if hd s = CHR ''+'' \<or> hd s = CHR ''-'' then tl s else s)
         in case ParseUint s1 base bitSize of
              Inl ErrSyntax \<Rightarrow> Inl ErrSyntax
            | r \<Rightarrow>
               (let un = (case r of Inr u \<Rightarrow> u | Inl e \<Rightarrow> 2 ^ bitSize - 1);
                    cutoff = 2 ^ (bitSize - 1)
                in if \<not> neg \<and> un \<ge> cutoff then Inl ErrRange
                   else if neg \<and> un > cutoff then Inl ErrRange
                   else Inr (if neg then - word_of_nat un else word_of_nat un))))"

section \<open>The aggregation store\<close>

text \<open>
  A Go slice is a header (backing array, length, capacity) over an array that other
  headers may share. Line 185 builds the receive series from the transmit series with
  \<^verbatim>\<open>append\<close>, so the two headers of a device can share an array, and the series are
  modelled as headers over a store of arrays: \<open>sl_array\<close> is the index of the backing
  array in that store. The headers of the program all start at the first element of their
  array.
\<close>

record slice =
  sl_array :: nat
  sl_len :: nat
  sl_cap :: nat

text \<open>\<^verbatim>\<open>DeviceData\<close> (lines 83-87).\<close>

record DeviceData =
  DeviceName :: string
  TransmitBytes :: slice
  ReceiveBytes :: slice

text \<open>
  \<^verbatim>\<open>ChartData\<close> (lines 89-94). The map and the list hold pointers \<^verbatim>\<open>*DeviceData\<close>: a
  pointer is the index of the object in the store of \<open>DeviceData\<close> objects. The slices
  \<^verbatim>\<open>Devices\<close> and \<^verbatim>\<open>FetchMilliseconds\<close> are only ever assigned the result of appending
  to themselves (lines 143 and 152), no second header shares their arrays, and they are
  the lists of their elements. The mutex is held for the whole of each pass and of the
  snapshot; the passes are modelled one at a time and it has no field.
\<close>

record ChartData =
  macAddressToDevice :: "string \<Rightarrow> nat option"
  Devices :: "nat list"
  FetchMilliseconds :: "int64 list"

text \<open>
  The memory of the program: the one \<^verbatim>\<open>ChartData\<close> object, the \<^verbatim>\<open>DeviceData\<close> objects
  and the backing arrays of the series. The array at index 0 is the empty array that every
  zero-length allocation shares.
\<close>

record memory =
  chartData :: ChartData
  deviceObjects :: "DeviceData list"
  arrays :: "int64 list list"

text \<open>The store that \<^verbatim>\<open>main\<close> builds (lines 218-221).\<close>

definition initial :: memory where
  "initial =
     \<lparr>chartData = \<lparr>macAddressToDevice = Map.empty, Devices = [], FetchMilliseconds = []\<rparr>,
      deviceObjects = [],
      arrays = [[]]\<rparr>"

text \<open>The slice literal \<^verbatim>\<open>[]int64{}\<close>: length and capacity 0.\<close>

definition emptySlice :: slice where
  "emptySlice = \<lparr>sl_array = 0, sl_len = 0, sl_cap = 0\<rparr>"

text \<open>
  The elements a header shows. A header of the program always points at an array of the
  store that is as long as its capacity; for any other header the elements are those the
  array has, and none when there is no such array.
\<close>

definition elems :: "int64 list list \<Rightarrow> slice \<Rightarrow> int64 list" where
  "elems h sl = (if sl_array sl < length h then take (sl_len sl) (h ! sl_array sl) else [])"

text \<open>
  \<^verbatim>\<open>append(sl, v)\<close> on a slice of \<^verbatim>\<open>int64\<close>. With room left it writes \<open>v\<close> into the
  backing array, behind the elements of \<open>sl\<close>, and returns a header over the same array.
  Without room it allocates an array, copies the elements and adds \<open>v\<close>. How much room the
  new array has beyond the elements is the choice of the Go runtime and not of this
  program: it is the parameter \<open>spare\<close>, a function of the old capacity and of the length
  needed.
\<close>

definition append_int64 ::
  "(nat \<Rightarrow> nat \<Rightarrow> nat) \<Rightarrow> slice \<Rightarrow> int64 \<Rightarrow> int64 list list \<Rightarrow> slice \<times> int64 list list" where
  "append_int64 spare sl v h =
     (if sl_len sl < sl_cap sl \<and> sl_array sl < length h
      then (sl\<lparr>sl_len := sl_len sl + 1\<rparr>,
            h[sl_array sl := (h ! sl_array sl)[sl_len sl := v]])
      else (let k = spare (sl_cap sl) (sl_len sl + 1) in
            (\<lparr>sl_array = length h, sl_len = sl_len sl + 1, sl_cap = sl_len sl + 1 + k\<rparr>,
             h @ [elems h sl @ [v] @ replicate k 0])))"

text \<open>
  The growth of the Go runtime for slices of fewer than 256 elements: the capacity
  doubles, or becomes the length needed when that is larger.
\<close>

definition doubling :: "nat \<Rightarrow> nat \<Rightarrow> nat" where
  "doubling oldCap newLen = (if newLen > 2 * oldCap then 0 else 2 * oldCap - newLen)"


section \<open>The two extraction passes\<close>

text \<open>
  \<^verbatim>\<open>fetchAndParse\<close> (lines 19-37) is the transport: its result, an error or the root of
  the parsed document, is an input of the passes. A pass returns a Go \<^verbatim>\<open>error\<close>, \<open>None\<close>
  for \<^verbatim>\<open>nil\<close>, and the memory it leaves. A run-time panic is an \<open>error\<close> here too.
\<close>

datatype error =
  FetchError string
| TableNotFound
| TrNotFound
| NilPointerDereference

definition cutset :: string where
  "cutset = [CHR '' '', CHR 0x09, CHR 0x0A]"

text \<open>The conditions the passes search with (the function literals of the source).\<close>

definition isDeviceTable :: nodeConditionFunc where
  "isDeviceTable node \<longleftrightarrow>
     DataAtom node = Table \<and>
     getAttribute node ''summary'' = ''This table displays info for each LAN-side device''"

definition isStatisticsTable :: nodeConditionFunc where
  "isStatisticsTable node \<longleftrightarrow>
     DataAtom node = Table \<and>
     getAttribute node ''summary'' = ''Wi-Fi Client Connection Statistics Table''"

definition isTr :: nodeConditionFunc where
  "isTr node \<longleftrightarrow> DataAtom node = Tr"

definition isTd :: nodeConditionFunc where
  "isTd node \<longleftrightarrow> DataAtom node = Td"

definition isMacAddressTh :: nodeConditionFunc where
  "isMacAddressTh node \<longleftrightarrow> DataAtom node = Th \<and> getInnerText node = ''MAC Address''"

subsection \<open>The registry pass\<close>

text \<open>
  Lines 138-143: a new \<^verbatim>\<open>DeviceData\<close> object with two empty series, stored in the map and
  appended to the list.
\<close>

definition fetchDevices_insert :: "string \<Rightarrow> string \<Rightarrow> memory \<Rightarrow> memory" where
  "fetchDevices_insert macAddress name s =
     (let deviceData = length (deviceObjects s);
          c = chartData s
      in s\<lparr>deviceObjects := deviceObjects s @
              [\<lparr>DeviceName = name, TransmitBytes = emptySlice, ReceiveBytes = emptySlice\<rparr>],
            chartData := c\<lparr>macAddressToDevice := (macAddressToDevice c)(macAddress \<mapsto> deviceData),
                           Devices := Devices c @ [deviceData]\<rparr>\<rparr>)"

text \<open>
  The loop of lines 109-144, entered with the current \<^verbatim>\<open>tr\<close>. Every \<^verbatim>\<open>continue\<close> runs
  the post statement \<^verbatim>\<open>tr = findFollowupSibling(tr)\<close>. At line 130 \<^verbatim>\<open>tr\<close> is \<^verbatim>\<open>nil\<close>
  when the \<^verbatim>\<open>continue\<close> runs, and \<^verbatim>\<open>findFollowupSibling\<close> reads \<^verbatim>\<open>node.NextSibling\<close> of
  it: the pass panics there.
\<close>

fun fetchDevices_loop :: "Node option \<Rightarrow> memory \<Rightarrow> error option \<times> memory" where
  "fetchDevices_loop None s = (None, s)"
| "fetchDevices_loop (Some tr) s =
     (case findDescendant tr isMacAddressTh of
        None \<Rightarrow> fetchDevices_loop (findFollowupSibling tr) s
      | Some th \<Rightarrow>
         (case findDescendant tr isTd of
            None \<Rightarrow> fetchDevices_loop (findFollowupSibling tr) s
          | Some td \<Rightarrow>
             (if macAddressToDevice (chartData s) (Trim (getInnerText td) cutset) \<noteq> None
              then fetchDevices_loop (findFollowupSibling tr) s
              else
               (case findFollowupSibling tr of
                  None \<Rightarrow> (Some NilPointerDereference, s)
                | Some tr2 \<Rightarrow>
                   (case findDescendant tr2 isTd of
                      None \<Rightarrow> fetchDevices_loop (findFollowupSibling tr2) s
                    | Some td2 \<Rightarrow>
                       fetchDevices_loop (findFollowupSibling tr2)
                         (fetchDevices_insert
                            (Trim (getInnerText td) cutset)
                            (ReplaceAll (Trim (getInnerText td2) cutset) [CHR 0x0A] [])
                            s))))))"

text \<open>\<^verbatim>\<open>fetchDevices\<close> (lines 96-146).\<close>

definition fetchDevices :: "error + Node \<Rightarrow> memory \<Rightarrow> error option \<times> memory" where
  "fetchDevices fetched s =
     (case fetched of
        Inl err \<Rightarrow> (Some err, s)
      | Inr doc \<Rightarrow>
         (case findDescendant doc isDeviceTable of
            None \<Rightarrow> (None, s)
          | Some table \<Rightarrow> fetchDevices_loop (findDescendant table isTr) s))"

subsection \<open>The statistics pass\<close>

text \<open>
  A pointer \<^verbatim>\<open>*DeviceData\<close> of the program always points at an object of the store; for an
  index without an object the two assignments below leave the memory as it is.

  Line 180: \<^verbatim>\<open>deviceData.TransmitBytes = append(deviceData.TransmitBytes, bytes)\<close>.
\<close>

definition appendTransmitBytes ::
  "(nat \<Rightarrow> nat \<Rightarrow> nat) \<Rightarrow> nat \<Rightarrow> int64 \<Rightarrow> memory \<Rightarrow> memory" where
  "appendTransmitBytes spare deviceData bytes s =
     (if deviceData < length (deviceObjects s)
      then (let d = deviceObjects s ! deviceData;
                r = append_int64 spare (TransmitBytes d) bytes (arrays s)
            in s\<lparr>deviceObjects := (deviceObjects s)[deviceData := d\<lparr>TransmitBytes := fst r\<rparr>],
                  arrays := snd r\<rparr>)
      else s)"

text \<open>Line 185: \<^verbatim>\<open>deviceData.ReceiveBytes = append(deviceData.TransmitBytes, bytes)\<close>.\<close>

definition assignReceiveBytes ::
  "(nat \<Rightarrow> nat \<Rightarrow> nat) \<Rightarrow> nat \<Rightarrow> int64 \<Rightarrow> memory \<Rightarrow> memory" where
  "assignReceiveBytes spare deviceData bytes s =
     (if deviceData < length (deviceObjects s)
      then (let d = deviceObjects s ! deviceData;
                r = append_int64 spare (TransmitBytes d) bytes (arrays s)
            in s\<lparr>deviceObjects := (deviceObjects s)[deviceData := d\<lparr>ReceiveBytes := fst r\<rparr>],
                  arrays := snd r\<rparr>)
      else s)"

text \<open>
  The body of the inner loop (lines 174-188) for one \<^verbatim>\<open>td\<close>: it returns the
  \<^verbatim>\<open>deviceData\<close> pointer (\<open>None\<close> for \<^verbatim>\<open>nil\<close>) and the memory. \<^verbatim>\<open>columnIndex\<close> is a Go
  \<^verbatim>\<open>int\<close> that counts cells of one row from 0; it is a \<open>nat\<close>.
\<close>

definition fetchLanStatistics_cell ::
  "(nat \<Rightarrow> nat \<Rightarrow> nat) \<Rightarrow> Node \<Rightarrow> nat \<Rightarrow> nat option \<Rightarrow> memory \<Rightarrow> nat option \<times> memory" where
  "fetchLanStatistics_cell spare td columnIndex deviceData s =
     (let deviceData1 =
            (if columnIndex = 0
             then macAddressToDevice (chartData s) (Trim (getInnerText td) cutset)
             else deviceData);
          s1 =
            (case deviceData1 of
               Some p \<Rightarrow>
                 if columnIndex = 7
                 then (case ParseInt (Trim (getInnerText td) cutset) 10 32 of
                         Inr bytes \<Rightarrow> appendTransmitBytes spare p bytes s
                       | Inl err \<Rightarrow> s)
                 else s
             | None \<Rightarrow> s);
          s2 =
            (case deviceData1 of
               Some p \<Rightarrow>
                 if columnIndex = 8
                 then (case ParseInt (Trim (getInnerText td) cutset) 10 32 of
                         Inr bytes \<Rightarrow> assignReceiveBytes spare p bytes s1
                       | Inl err \<Rightarrow> s1)
                 else s1
             | None \<Rightarrow> s1)
      in (deviceData1, s2))"

text \<open>The inner loop (lines 171-189), entered with the current \<^verbatim>\<open>td\<close>.\<close>

fun fetchLanStatistics_cells ::
  "(nat \<Rightarrow> nat \<Rightarrow> nat) \<Rightarrow> Node option \<Rightarrow> nat \<Rightarrow> nat option \<Rightarrow> memory \<Rightarrow> memory" where
  "fetchLanStatistics_cells spare None columnIndex deviceData s = s"
| "fetchLanStatistics_cells spare (Some td) columnIndex deviceData s =
     fetchLanStatistics_cells spare (findFollowupSibling td) (columnIndex + 1)
       (fst (fetchLanStatistics_cell spare td columnIndex deviceData s))
       (snd (fetchLanStatistics_cell spare td columnIndex deviceData s))"

text \<open>One row (lines 169-189): \<^verbatim>\<open>columnIndex\<close> 0, \<^verbatim>\<open>deviceData\<close> \<^verbatim>\<open>nil\<close>, then its cells.\<close>

definition fetchLanStatistics_row :: "(nat \<Rightarrow> nat \<Rightarrow> nat) \<Rightarrow> Node \<Rightarrow> memory \<Rightarrow> memory" where
  "fetchLanStatistics_row spare tr s =
     fetchLanStatistics_cells spare (findDescendant tr isTd) 0 None s"

text \<open>The outer loop (lines 168-190), entered with the current \<^verbatim>\<open>tr\<close>.\<close>

fun fetchLanStatistics_rows ::
  "(nat \<Rightarrow> nat \<Rightarrow> nat) \<Rightarrow> Node option \<Rightarrow> memory \<Rightarrow> memory" where
  "fetchLanStatistics_rows spare None s = s"
| "fetchLanStatistics_rows spare (Some tr) s =
     fetchLanStatistics_rows spare (findFollowupSibling tr) (fetchLanStatistics_row spare tr s)"

text \<open>
  \<^verbatim>\<open>fetchLanStatistics\<close> (lines 148-192). \<open>now\<close> is the value of
  \<^verbatim>\<open>time.Now().UnixNano()/1000000\<close> at line 152.
\<close>

definition fetchLanStatistics ::
  "(nat \<Rightarrow> nat \<Rightarrow> nat) \<Rightarrow> int64 \<Rightarrow> error + Node \<Rightarrow> memory \<Rightarrow> error option \<times> memory" where
  "fetchLanStatistics spare now fetched s =
     (let c = chartData s;
          s1 = s\<lparr>chartData := c\<lparr>FetchMilliseconds := FetchMilliseconds c @ [now]\<rparr>\<rparr>
      in case fetched of
           Inl err \<Rightarrow> (Some err, s1)
         | Inr doc \<Rightarrow>
            (case findDescendant doc isStatisticsTable of
               None \<Rightarrow> (Some TableNotFound, s1)
             | Some table \<Rightarrow>
                (case findDescendant table isTr of
                   None \<Rightarrow> (Some TrNotFound, s1)
                 | Some tr \<Rightarrow>
                     (None, fetchLanStatistics_rows spare (findFollowupSibling tr) s1))))"


section \<open>Documents for the examples\<close>

text \<open>
  Trees of the shape \<^verbatim>\<open>html.Parse\<close> builds for a page with one table: the document node,
  \<^verbatim>\<open>html\<close>, \<^verbatim>\<open>body\<close>, the \<^verbatim>\<open>table\<close> with its \<^verbatim>\<open>summary\<close> attribute, \<^verbatim>\<open>tbody\<close>, and the
  rows. A row is a list of cells, a cell is a tag (\<open>Th\<close> or \<open>Td\<close>) and its text.
\<close>

definition cellNode :: "Atom \<times> string \<Rightarrow> Node option \<Rightarrow> Node" where
  "cellNode c next =
     Node ElementNode (fst c) ''cell'' []
       (Some (Node TextNode (OtherAtom 0) (snd c) [] None None)) next"

fun cellNodes :: "(Atom \<times> string) list \<Rightarrow> Node option" where
  "cellNodes [] = None"
| "cellNodes (c # rest) = Some (cellNode c (cellNodes rest))"

definition rowNode :: "(Atom \<times> string) list \<Rightarrow> Node option \<Rightarrow> Node" where
  "rowNode r next = Node ElementNode Tr ''tr'' [] (cellNodes r) next"

fun rowNodes :: "(Atom \<times> string) list list \<Rightarrow> Node option" where
  "rowNodes [] = None"
| "rowNodes (r # rest) = Some (rowNode r (rowNodes rest))"

definition tableNode :: "string \<Rightarrow> (Atom \<times> string) list list \<Rightarrow> Node" where
  "tableNode summary rs =
     Node ElementNode Table ''table'' [Attribute [] ''summary'' summary]
       (Some (Node ElementNode (OtherAtom 3) ''tbody'' [] (rowNodes rs) None))
       None"

definition tablePage :: "string \<Rightarrow> (Atom \<times> string) list list \<Rightarrow> Node" where
  "tablePage summary rs =
     Node DocumentNode (OtherAtom 0) [] []
       (Some (Node ElementNode (OtherAtom 1) ''html'' []
          (Some (Node ElementNode (OtherAtom 2) ''body'' []
             (Some (tableNode summary rs))
             None))
          None))
       None"

definition devicesPage :: "(Atom \<times> string) list list \<Rightarrow> Node" where
  "devicesPage rs = tablePage ''This table displays info for each LAN-side device'' rs"

definition statisticsPage :: "(Atom \<times> string) list list \<Rightarrow> Node" where
  "statisticsPage rs = tablePage ''Wi-Fi Client Connection Statistics Table'' rs"

text \<open>A statistics row: nine \<^verbatim>\<open>td\<close> cells, the address in column 0, the counts in 7 and 8.\<close>

definition statisticsRow :: "string \<Rightarrow> string \<Rightarrow> string \<Rightarrow> (Atom \<times> string) list" where
  "statisticsRow mac tx rx =
     [(Td, mac), (Td, ''a''), (Td, ''b''), (Td, ''c''), (Td, ''d''), (Td, ''e''), (Td, ''f''),
      (Td, tx), (Td, rx)]"

definition headerRow :: "(Atom \<times> string) list" where
  "headerRow = [(Th, ''MAC Address''), (Th, ''Tx Bytes''), (Th, ''Rx Bytes'')]"

text \<open>The registry page that lists one device: the address row and the name row.\<close>

definition deviceRows :: "string \<Rightarrow> string \<Rightarrow> (Atom \<times> string) list list" where
  "deviceRows mac name = [[(Th, ''MAC Address''), (Td, mac)], [(Th, ''Name''), (Td, name)]]"

text \<open>The series of a device as the lists of their elements.\<close>

definition transmitSeries :: "memory \<Rightarrow> nat \<Rightarrow> int64 list" where
  "transmitSeries s p = elems (arrays s) (TransmitBytes (deviceObjects s ! p))"

definition receiveSeries :: "memory \<Rightarrow> nat \<Rightarrow> int64 list" where
  "receiveSeries s p = elems (arrays s) (ReceiveBytes (deviceObjects s ! p))"

text \<open>The memory after the registry pass has read the page that lists the laptop.\<close>

definition laptopMemory :: memory where
  "laptopMemory =
     \<lparr>chartData = \<lparr>macAddressToDevice = [''AA:BB:CC:DD:EE:FF'' \<mapsto> 0], Devices = [0],
                    FetchMilliseconds = []\<rparr>,
      deviceObjects =
        [\<lparr>DeviceName = ''laptop'', TransmitBytes = emptySlice, ReceiveBytes = emptySlice\<rparr>],
      arrays = [[]]\<rparr>"

section \<open>Decimal numerals\<close>

text \<open>
  What a cell has to hold to be a base-10 integer, and the integer it denotes: an optional
  sign and at least one decimal digit. These are the words of the claims about parsing,
  not code of the program; \<open>ParseInt\<close> above is compared with them.
\<close>

definition isDigit :: "char \<Rightarrow> bool" where
  "isDigit c \<longleftrightarrow> 48 \<le> (of_char c :: nat) \<and> (of_char c :: nat) \<le> 57"

fun decimalDigits :: "nat \<Rightarrow> string \<Rightarrow> nat" where
  "decimalDigits n [] = n"
| "decimalDigits n (c # cs) = decimalDigits (n * 10 + (of_char c - 48)) cs"

definition isDecimal :: "string \<Rightarrow> bool" where
  "isDecimal s =
     (case s of
        [] \<Rightarrow> False
      | c # cs \<Rightarrow>
          if c = CHR ''+'' \<or> c = CHR ''-'' then cs \<noteq> [] \<and> list_all isDigit cs
          else list_all isDigit (c # cs))"

definition decimalValue :: "string \<Rightarrow> int" where
  "decimalValue s =
     (case s of
        [] \<Rightarrow> 0
      | c # cs \<Rightarrow>
          if c = CHR ''-'' then - int (decimalDigits 0 cs)
          else if c = CHR ''+'' then int (decimalDigits 0 cs)
          else int (decimalDigits 0 (c # cs)))"

section \<open>Runs of the program\<close>

text \<open>
  The nodes a loop of the form \<^verbatim>\<open>for n := p; n != nil; n = findFollowupSibling(n)\<close>
  visits, in order.
\<close>

fun followups :: "Node option \<Rightarrow> Node list" where
  "followups None = []"
| "followups (Some n) = n # followups (findFollowupSibling n)"

text \<open>
  The address a statistics row is read under: the trimmed text of the first \<^verbatim>\<open>td\<close> the
  inner loop finds (lines 171-176), if the row has one.
\<close>

definition rowAddress :: "Node \<Rightarrow> string option" where
  "rowAddress tr =
     (case findDescendant tr isTd of
        None \<Rightarrow> None
      | Some td \<Rightarrow> Some (Trim (getInnerText td) cutset))"

text \<open>The rows the outer loop of the statistics pass visits in a document (lines 156-168).\<close>

definition statisticsRows :: "Node \<Rightarrow> Node list" where
  "statisticsRows doc =
     (case findDescendant doc isStatisticsTable of
        None \<Rightarrow> []
      | Some table \<Rightarrow>
         (case findDescendant table isTr of
            None \<Rightarrow> []
          | Some tr \<Rightarrow> followups (findFollowupSibling tr)))"

text \<open>
  A fetch result in which no two data rows of the statistics table are read under the same
  address.
\<close>

definition oneRowPerAddress :: "error + Node \<Rightarrow> bool" where
  "oneRowPerAddress fetched =
     (case fetched of
        Inl err \<Rightarrow> True
      | Inr doc \<Rightarrow> distinct (List.map_filter rowAddress (statisticsRows doc)))"

text \<open>No condition on the fetch results.\<close>

definition anyDocument :: "error + Node \<Rightarrow> bool" where
  "anyDocument fetched = True"

text \<open>
  The memories the program can be in: \<^verbatim>\<open>main\<close> builds the empty store, and then the two
  passes run, in any order and number, each on whatever the transport returns at whatever
  time. \<open>ok\<close> restricts the fetch results of the statistics passes, \<open>spare\<close> is the
  growth policy of \<^verbatim>\<open>append\<close>.
\<close>

inductive runs :: "(error + Node \<Rightarrow> bool) \<Rightarrow> (nat \<Rightarrow> nat \<Rightarrow> nat) \<Rightarrow> memory \<Rightarrow> bool"
  for ok :: "error + Node \<Rightarrow> bool" and spare :: "nat \<Rightarrow> nat \<Rightarrow> nat"
where
  start: "runs ok spare initial"
| registry: "runs ok spare s \<Longrightarrow> runs ok spare (snd (fetchDevices fetched s))"
| statistics:
    "runs ok spare s \<Longrightarrow> ok fetched \<Longrightarrow>
     runs ok spare (snd (fetchLanStatistics spare now fetched s))"

text \<open>
  The two views of the registry: the list holds the pointers to all \<^verbatim>\<open>DeviceData\<close>
  objects in the order of their creation, the map reaches exactly those, and no two
  addresses share an object.
\<close>

definition viewsAgree :: "memory \<Rightarrow> bool" where
  "viewsAgree s \<longleftrightarrow>
     Devices (chartData s) = [0 ..< length (deviceObjects s)] \<and>
     ran (macAddressToDevice (chartData s)) = {0 ..< length (deviceObjects s)} \<and>
     inj_on (macAddressToDevice (chartData s)) (dom (macAddressToDevice (chartData s)))"

section \<open>Series and timestamps\<close>

text \<open>The length of the transmit series of an object: \<^verbatim>\<open>len(deviceData.TransmitBytes)\<close>.\<close>

definition transmitLen :: "memory \<Rightarrow> nat \<Rightarrow> nat" where
  "transmitLen s p = sl_len (TransmitBytes (deviceObjects s ! p))"

text \<open>The object a statistics row is read for: the map at the address of the row.\<close>

definition rowDevice :: "memory \<Rightarrow> Node \<Rightarrow> nat option" where
  "rowDevice s tr =
     (case rowAddress tr of None \<Rightarrow> None | Some a \<Rightarrow> macAddressToDevice (chartData s) a)"

text \<open>No transmit series is longer than the fetch timestamps.\<close>

definition transmitBound :: "memory \<Rightarrow> bool" where
  "transmitBound s \<longleftrightarrow>
     (\<forall>p < length (deviceObjects s).
        transmitLen s p \<le> length (FetchMilliseconds (chartData s)))"

text \<open>The statistics page of the scenario: a header row and one row for the laptop.\<close>

definition oneRowPage :: Node where
  "oneRowPage = statisticsPage [headerRow, statisticsRow ''AA:BB:CC:DD:EE:FF'' ''1024'' ''2048'']"

text \<open>
  A statistics page that lists the laptop in two rows; the receive cells are not numbers.
\<close>

definition repeatedRowPage :: Node where
  "repeatedRowPage =
     statisticsPage [headerRow, statisticsRow ''AA:BB:CC:DD:EE:FF'' ''1024'' ''n/a'',
                     statisticsRow ''AA:BB:CC:DD:EE:FF'' ''4096'' ''n/a'']"

section \<open>The search and the positions it visits\<close>

text \<open>
  For the claim about which nodes \<^verbatim>\<open>findDescendant\<close> visits, the same function once more,
  with a log: the result, and the nodes on which \<^verbatim>\<open>conditionFunc\<close> was called, in the order
  of the calls. A node is logged with its position, the child indices on the way from the
  start node down to it (\<open>path\<close> is the position of the node whose children the loop
  walks, \<open>i\<close> the index of the current child), since equal subtrees can stand at different
  places of a tree.
\<close>

lemma size_FirstChild_Suc [termination_simp]:
  "size_option size (FirstChild n) < Suc (size n)"
  using size_FirstChild [of n] by simp

function findDescendant_log ::
    "nat list \<Rightarrow> Node \<Rightarrow> nodeConditionFunc \<Rightarrow> Node option \<times> (nat list \<times> Node) list"
  and findDescendant_log_loop ::
    "nat list \<Rightarrow> nat \<Rightarrow> Node option \<Rightarrow> nodeConditionFunc
       \<Rightarrow> Node option \<times> (nat list \<times> Node) list"
where
  "findDescendant_log path node conditionFunc =
     findDescendant_log_loop path 0 (FirstChild node) conditionFunc"
| "findDescendant_log_loop path i None conditionFunc = (None, [])"
| "findDescendant_log_loop path i (Some child) conditionFunc =
     (if conditionFunc child then (Some child, [(path @ [i], child)])
      else (case fst (findDescendant_log (path @ [i]) child conditionFunc) of
              Some res \<Rightarrow>
                (Some res,
                 (path @ [i], child) # snd (findDescendant_log (path @ [i]) child conditionFunc))
            | None \<Rightarrow>
                (fst (findDescendant_log_loop path (Suc i) (NextSibling child) conditionFunc),
                 (path @ [i], child)
                   # snd (findDescendant_log (path @ [i]) child conditionFunc)
                   @ snd (findDescendant_log_loop path (Suc i) (NextSibling child)
                            conditionFunc))))"
  by pat_completeness auto

lemma size_FirstChild_twice: "Suc (2 * size_option size (FirstChild node)) < 2 * size node"
  using size_FirstChild [of node] by simp

lemma size_NextSibling_twice:
  "2 * size_option size (NextSibling child) < Suc (Suc (2 * size child))"
  using size_NextSibling [of child] by simp

termination findDescendant_log
  by (relation "measure (case_sum (\<lambda>(p, n, c). 2 * size n)
                                   (\<lambda>(p, i, q, c). 2 * size_option size q + 1))")
     (simp_all add: size_FirstChild_twice size_NextSibling_twice)

text \<open>
  The words of the specification: the proper descendants of a node in depth-first
  pre-order, each child before its own children and those before the next sibling, with
  their positions.
\<close>

fun preorder :: "nat list \<Rightarrow> nat \<Rightarrow> Node option \<Rightarrow> (nat list \<times> Node) list" where
  "preorder path i None = []"
| "preorder path i (Some child) =
     (path @ [i], child) # preorder (path @ [i]) 0 (FirstChild child)
       @ preorder path (Suc i) (NextSibling child)"

definition descendants :: "Node \<Rightarrow> (nat list \<times> Node) list" where
  "descendants node = preorder [] 0 (FirstChild node)"

text \<open>A list up to and including its first element that satisfies \<open>P\<close>.\<close>

fun upToFirst :: "('a \<Rightarrow> bool) \<Rightarrow> 'a list \<Rightarrow> 'a list" where
  "upToFirst P [] = []"
| "upToFirst P (x # xs) = (if P x then [x] else x # upToFirst P xs)"

text \<open>
  The node at a position: \<open>nthSibling i p\<close> follows \<^verbatim>\<open>NextSibling\<close> \<open>i\<close> times from
  \<open>p\<close>, and \<open>nodeAt node q\<close> goes down from \<open>node\<close> along the child indices \<open>q\<close>.
\<close>

fun nthSibling :: "nat \<Rightarrow> Node option \<Rightarrow> Node option" where
  "nthSibling i None = None"
| "nthSibling 0 (Some n) = Some n"
| "nthSibling (Suc i) (Some n) = nthSibling i (NextSibling n)"

fun nodeAt :: "Node \<Rightarrow> nat list \<Rightarrow> Node option" where
  "nodeAt node [] = Some node"
| "nodeAt node (i # rest) =
     (case nthSibling i (FirstChild node) of
        None \<Rightarrow> None
      | Some child \<Rightarrow> nodeAt child rest)"

section \<open>Well-formed registry tables\<close>

text \<open>
  A row the registry loop reads an address from: it has the header cell \<open>MAC Address\<close> and
  a \<^verbatim>\<open>td\<close> (lines 112-123).
\<close>

definition isAddressRow :: "Node \<Rightarrow> bool" where
  "isAddressRow tr \<longleftrightarrow> findDescendant tr isMacAddressTh \<noteq> None \<and> findDescendant tr isTd \<noteq> None"

text \<open>The device name the loop reads from the row after an address row (line 139).\<close>

definition rowName :: "Node \<Rightarrow> string" where
  "rowName tr =
     (case findDescendant tr isTd of
        None \<Rightarrow> []
      | Some td \<Rightarrow> ReplaceAll (Trim (getInnerText td) cutset) [CHR 0x0A] [])"

text \<open>
  A well-formed registry table, as the list of its rows: every address row is followed by a
  row that has a \<^verbatim>\<open>td\<close> (the name) and is not an address row itself; other rows may stand
  anywhere else.
\<close>

fun wellFormedRows :: "Node list \<Rightarrow> bool" where
  "wellFormedRows [] = True"
| "wellFormedRows (r # rest) =
     (if isAddressRow r
      then (case rest of
              [] \<Rightarrow> False
            | n # rest' \<Rightarrow>
                findDescendant n isTd \<noteq> None \<and> \<not> isAddressRow n \<and> wellFormedRows rest')
      else wellFormedRows rest)"

text \<open>The address and name pairs such a table lists, in order, repetitions included.\<close>

fun listedPairs :: "Node list \<Rightarrow> (string \<times> string) list" where
  "listedPairs [] = []"
| "listedPairs (r # rest) =
     (if isAddressRow r
      then (case rest of
              [] \<Rightarrow> []
            | n # rest' \<Rightarrow>
                (case rowAddress r of
                   None \<Rightarrow> listedPairs rest'
                 | Some a \<Rightarrow> (a, rowName n) # listedPairs rest'))
      else listedPairs rest)"

text \<open>The rows the registry loop starts from in a document (lines 103-111).\<close>

definition registryRows :: "Node \<Rightarrow> Node list" where
  "registryRows doc =
     (case findDescendant doc isDeviceTable of
        None \<Rightarrow> []
      | Some table \<Rightarrow> followups (findDescendant table isTr))"

text \<open>
  Registering a list of pairs one after the other: a pair whose address the map holds is
  passed over, any other gets a new object.
\<close>

fun registerAll :: "(string \<times> string) list \<Rightarrow> memory \<Rightarrow> memory" where
  "registerAll [] s = s"
| "registerAll (p # ps) s =
     (if macAddressToDevice (chartData s) (fst p) \<noteq> None then registerAll ps s
      else registerAll ps (fetchDevices_insert (fst p) (snd p) s))"

text \<open>
  \<open>keeps s s'\<close>: everything \<open>s\<close> holds is in \<open>s'\<close> as it was. The arrays and the
  timestamps are the same, the objects and the list of \<open>s\<close> begin those of \<open>s'\<close>, and
  every address of the map of \<open>s\<close> points to the same object in \<open>s'\<close>.
\<close>

definition keeps :: "memory \<Rightarrow> memory \<Rightarrow> bool" where
  "keeps s s' \<longleftrightarrow>
     arrays s' = arrays s \<and>
     FetchMilliseconds (chartData s') = FetchMilliseconds (chartData s) \<and>
     prefix (deviceObjects s) (deviceObjects s') \<and>
     prefix (Devices (chartData s)) (Devices (chartData s')) \<and>
     macAddressToDevice (chartData s) \<subseteq>\<^sub>m macAddressToDevice (chartData s')"

text \<open>A registry page that lists the laptop, the phone, and the laptop again.\<close>

definition repeatedListingPage :: Node where
  "repeatedListingPage =
     devicesPage (deviceRows ''AA:BB:CC:DD:EE:FF'' ''laptop''
                  @ deviceRows ''11:22:33:44:55:66'' ''phone''
                  @ deviceRows ''AA:BB:CC:DD:EE:FF'' ''laptop again'')"

section \<open>The snapshot\<close>

text \<open>
  \<^verbatim>\<open>json.Marshal\<close> is a function of Go's standard library. It is written out here for
  the value the handler passes, a pointer to \<^verbatim>\<open>ChartData\<close>: an object with the exported
  fields in the order of their declaration (the map and the mutex are not exported and are
  left out), a pointer as the object it points to, a slice as an array, an \<^verbatim>\<open>int64\<close> in
  decimal. How a string is quoted and escaped is the parameter \<open>quote\<close>.

  The decimal digits of a natural number.
\<close>

fun decimal :: "nat \<Rightarrow> string" where
  "decimal n =
     (if n < 10 then [char_of (48 + n)]
      else decimal (n div 10) @ [char_of (48 + n mod 10)])"

text \<open>An \<^verbatim>\<open>int64\<close> in decimal, with a minus sign when it is negative.\<close>

definition FormatInt :: "int64 \<Rightarrow> string" where
  "FormatInt v =
     (if sint v < 0 then CHR ''-'' # decimal (nat (- sint v)) else decimal (nat (sint v)))"

text \<open>Strings joined by a separator.\<close>

fun joinWith :: "string \<Rightarrow> string list \<Rightarrow> string" where
  "joinWith sep [] = []"
| "joinWith sep [x] = x"
| "joinWith sep (x # y # rest) = x @ sep @ joinWith sep (y # rest)"

text \<open>A JSON array of elements already encoded.\<close>

definition marshalArray :: "string list \<Rightarrow> string" where
  "marshalArray xs = ''['' @ joinWith '','' xs @ '']''"

text \<open>A field of a JSON object: the name in double quotes, a colon, the value.\<close>

definition marshalField :: "string \<Rightarrow> string \<Rightarrow> string" where
  "marshalField name v = [CHR 0x22] @ name @ [CHR 0x22] @ '':'' @ v"

text \<open>A slice of \<^verbatim>\<open>int64\<close>: the elements its header shows.\<close>

definition marshalInt64Slice :: "int64 list list \<Rightarrow> slice \<Rightarrow> string" where
  "marshalInt64Slice h sl = marshalArray (map FormatInt (elems h sl))"

text \<open>A \<^verbatim>\<open>DeviceData\<close> object (lines 83-87).\<close>

definition marshalDeviceData ::
  "(string \<Rightarrow> string) \<Rightarrow> int64 list list \<Rightarrow> DeviceData \<Rightarrow> string" where
  "marshalDeviceData quote h d =
     ''{'' @ marshalField ''DeviceName'' (quote (DeviceName d)) @ '','' @
            marshalField ''TransmitBytes'' (marshalInt64Slice h (TransmitBytes d)) @ '','' @
            marshalField ''ReceiveBytes'' (marshalInt64Slice h (ReceiveBytes d)) @ ''}''"

text \<open>
  A pointer \<^verbatim>\<open>*DeviceData\<close>: the object it points to (\<^verbatim>\<open>null\<close> for a pointer to no
  object, which the program never holds).
\<close>

definition marshalDevicePointer ::
  "(string \<Rightarrow> string) \<Rightarrow> memory \<Rightarrow> nat \<Rightarrow> string" where
  "marshalDevicePointer quote s p =
     (if p < length (deviceObjects s)
      then marshalDeviceData quote (arrays s) (deviceObjects s ! p)
      else ''null'')"

text \<open>The \<^verbatim>\<open>ChartData\<close> object (lines 89-94).\<close>

definition json_Marshal :: "(string \<Rightarrow> string) \<Rightarrow> memory \<Rightarrow> string" where
  "json_Marshal quote s =
     ''{'' @ marshalField ''Devices''
              (marshalArray (map (marshalDevicePointer quote s) (Devices (chartData s)))) @ '','' @
            marshalField ''FetchMilliseconds''
              (marshalArray (map FormatInt (FetchMilliseconds (chartData s)))) @ ''}''"

text \<open>
  \<^verbatim>\<open>dataHandler\<close> (lines 203-213): it locks, encodes, unlocks and writes the bytes; the
  response is the status and the body, returned with the memory. The encoding of this
  value cannot fail, so the status is 200.
\<close>

definition dataHandler :: "(string \<Rightarrow> string) \<Rightarrow> memory \<Rightarrow> (nat \<times> string) \<times> memory" where
  "dataHandler quote s = ((200, json_Marshal quote s), s)"

text \<open>
  What a snapshot is to show: for each pointer of the device list the name and the two
  series of its object, and the fetch timestamps.
\<close>

definition snapshotView ::
  "memory \<Rightarrow> (string \<times> int64 list \<times> int64 list) option list \<times> int64 list" where
  "snapshotView s =
     (map (\<lambda>p. if p < length (deviceObjects s)
                then Some (DeviceName (deviceObjects s ! p), transmitSeries s p, receiveSeries s p)
                else None)
          (Devices (chartData s)),
      FetchMilliseconds (chartData s))"

text \<open>The JSON encoding of a string that needs no escapes: the string in double quotes.\<close>

definition plainQuote :: "string \<Rightarrow> string" where
  "plainQuote str = [CHR 0x22] @ str @ [CHR 0x22]"

text \<open>A growth policy that leaves room for four more elements.\<close>

definition roomy :: "nat \<Rightarrow> nat \<Rightarrow> nat" where
  "roomy oldCap newLen = 4"

section \<open>Properties\<close>

subsection \<open>The searches on the example documents\<close>

declare findDescendant.simps(1) [simp del]
declare getInnerText.simps(1) [simp del]

lemma DataAtom_cellNode [simp]: "DataAtom (cellNode c next) = fst c"
  by (simp add: cellNode_def)

lemma NextSibling_cellNode [simp]: "NextSibling (cellNode c next) = next"
  by (simp add: cellNode_def)

lemma getInnerText_cellNode [simp]: "getInnerText (cellNode c next) = snd c"
  by (simp add: cellNode_def getInnerText.simps(1))

lemma findDescendant_cellNode [simp]:
  "\<not> cond (Node TextNode (OtherAtom 0) (snd c) [] None None) \<Longrightarrow>
   findDescendant (cellNode c next) cond = None"
  by (simp add: cellNode_def findDescendant.simps(1))

lemma DataAtom_rowNode [simp]: "DataAtom (rowNode r next) = Tr"
  by (simp add: rowNode_def)

lemma NextSibling_rowNode [simp]: "NextSibling (rowNode r next) = next"
  by (simp add: rowNode_def)

lemma findDescendant_rowNode [simp]:
  "findDescendant (rowNode r next) cond = findDescendant_loop (cellNodes r) cond"
  by (simp add: rowNode_def findDescendant.simps(1))

lemma findFollowupSibling_rowNodes:
  "findFollowupSibling (rowNode r (rowNodes rs)) = rowNodes rs"
  by (cases rs) (simp_all add: findFollowupSibling_def)

lemma findDescendant_tableNode_isTr [simp]:
  "findDescendant (tableNode summary rs) isTr = rowNodes rs"
  by (cases rs) (simp_all add: tableNode_def isTr_def findDescendant.simps(1))

lemma findDescendant_devicesPage [simp]:
  "findDescendant (devicesPage rs) isDeviceTable
     = Some (tableNode ''This table displays info for each LAN-side device'' rs)"
  by (simp add: devicesPage_def tablePage_def tableNode_def isDeviceTable_def getAttribute_def
      findDescendant.simps(1))

lemma findDescendant_statisticsPage [simp]:
  "findDescendant (statisticsPage rs) isStatisticsTable
     = Some (tableNode ''Wi-Fi Client Connection Statistics Table'' rs)"
  by (simp add: statisticsPage_def tablePage_def tableNode_def isStatisticsTable_def
      getAttribute_def findDescendant.simps(1))

lemma registry_pass_laptop:
  "fetchDevices (Inr (devicesPage (deviceRows ''AA:BB:CC:DD:EE:FF'' ''laptop''))) initial
     = (None, laptopMemory)"
  by (simp add: fetchDevices_def deviceRows_def Trim_def cutset_def fetchDevices_insert_def
      initial_def laptopMemory_def findFollowupSibling_def isTd_def isMacAddressTh_def)


subsection \<open>What the statistics pass leaves alone\<close>

lemma chartData_appendTransmitBytes [simp]:
  "chartData (appendTransmitBytes spare p b s) = chartData s"
  by (simp add: appendTransmitBytes_def Let_def)

lemma chartData_assignReceiveBytes [simp]:
  "chartData (assignReceiveBytes spare p b s) = chartData s"
  by (simp add: assignReceiveBytes_def Let_def)

lemma chartData_cell [simp]:
  "chartData (snd (fetchLanStatistics_cell spare td col dd s)) = chartData s"
  by (simp add: fetchLanStatistics_cell_def Let_def split: option.splits sum.splits)

lemma chartData_cells [simp]:
  "chartData (fetchLanStatistics_cells spare p col dd s) = chartData s"
  by (induction spare p col dd s rule: fetchLanStatistics_cells.induct) simp_all

lemma chartData_rows [simp]:
  "chartData (fetchLanStatistics_rows spare p s) = chartData s"
  by (induction spare p s rule: fetchLanStatistics_rows.induct)
     (simp_all add: fetchLanStatistics_row_def)

lemma cell_no_device:
  "0 < col \<Longrightarrow> fetchLanStatistics_cell spare td col None s = (None, s)"
  by (simp add: fetchLanStatistics_cell_def)

lemma cells_no_device:
  "dd = None \<Longrightarrow> 0 < col \<Longrightarrow> fetchLanStatistics_cells spare p col dd s = s"
  by (induction spare p col dd s rule: fetchLanStatistics_cells.induct)
     (simp_all add: cell_no_device)

text \<open>
  Claim C3. A row of the statistics table whose column 0 (the first \<^verbatim>\<open>td\<close> the pass
  finds in the row) holds an address that the map does not know leaves the whole memory
  as it was: every series of every device, headers and arrays, is unchanged.
\<close>

theorem unregistered_address_row_changes_nothing:
  "findDescendant tr isTd = Some td \<Longrightarrow>
   macAddressToDevice (chartData s) (Trim (getInnerText td) cutset) = None \<Longrightarrow>
   fetchLanStatistics_row spare tr s = s"
  by (simp add: fetchLanStatistics_row_def fetchLanStatistics_cell_def cells_no_device)

theorem unregistered_address_row_witness:
  "findDescendant (rowNode (statisticsRow ''11:22:33:44:55:66'' ''1024'' ''2048'') None) isTd
     = Some (cellNode (Td, ''11:22:33:44:55:66'')
               (cellNodes (tl (statisticsRow ''11:22:33:44:55:66'' ''1024'' ''2048'')))) \<and>
   macAddressToDevice (chartData laptopMemory) ''11:22:33:44:55:66'' = None \<and>
   fetchLanStatistics_row doubling
     (rowNode (statisticsRow ''11:22:33:44:55:66'' ''1024'' ''2048'') None) laptopMemory
     = laptopMemory"
proof -
  have a: "findDescendant (rowNode (statisticsRow ''11:22:33:44:55:66'' ''1024'' ''2048'') None)
      isTd
     = Some (cellNode (Td, ''11:22:33:44:55:66'')
               (cellNodes (tl (statisticsRow ''11:22:33:44:55:66'' ''1024'' ''2048''))))"
    by (simp add: statisticsRow_def isTd_def)
  have b: "macAddressToDevice (chartData laptopMemory) ''11:22:33:44:55:66'' = None"
    by (simp add: laptopMemory_def)
  have c: "macAddressToDevice (chartData laptopMemory)
      (Trim (getInnerText (cellNode (Td, ''11:22:33:44:55:66'')
               (cellNodes (tl (statisticsRow ''11:22:33:44:55:66'' ''1024'' ''2048'')))))
         cutset) = None"
    by (simp add: laptopMemory_def Trim_def cutset_def)
  show ?thesis
    using unregistered_address_row_changes_nothing [OF a c, of doubling] a b by simp
qed

subsection \<open>The fetch timestamps\<close>

text \<open>
  Claim C4. Every call of the statistics pass appends exactly one timestamp, the time of
  the call, to the fetch timestamps, whatever the transport returned and whether or not
  the table and its header row were found: the earlier timestamps stay, and the new one is
  last.
\<close>

theorem statistics_pass_appends_one_timestamp:
  "FetchMilliseconds (chartData (snd (fetchLanStatistics spare now fetched s)))
     = FetchMilliseconds (chartData s) @ [now]"
  by (simp add: fetchLanStatistics_def Let_def split: sum.splits option.splits)

subsection \<open>A page without the table\<close>

text \<open>
  Claim C6. When the document has no table with the summary the pass looks for, the
  registry pass returns no error and leaves the memory as it was, and the statistics pass
  returns the error \<open>TableNotFound\<close> (having recorded its timestamp, and nothing else).
\<close>

theorem absent_table_registry_succeeds_statistics_fails:
  "(findDescendant doc isDeviceTable = None \<longrightarrow> fetchDevices (Inr doc) s = (None, s)) \<and>
   (findDescendant doc isStatisticsTable = None \<longrightarrow>
      fetchLanStatistics spare now (Inr doc) s =
        (Some TableNotFound,
         s\<lparr>chartData := (chartData s)\<lparr>FetchMilliseconds :=
              FetchMilliseconds (chartData s) @ [now]\<rparr>\<rparr>))"
  by (simp add: fetchDevices_def fetchLanStatistics_def Let_def)

theorem absent_table_witness:
  "findDescendant (tablePage ''Status'' []) isDeviceTable = None \<and>
   fetchDevices (Inr (tablePage ''Status'' [])) laptopMemory = (None, laptopMemory) \<and>
   findDescendant (tablePage ''Status'' []) isStatisticsTable = None \<and>
   fst (fetchLanStatistics doubling 1700000000000 (Inr (tablePage ''Status'' [])) laptopMemory)
     = Some TableNotFound"
proof -
  have a: "findDescendant (tablePage ''Status'' []) isDeviceTable = None"
    by (simp add: tablePage_def tableNode_def isDeviceTable_def getAttribute_def
        findDescendant.simps(1))
  have b: "findDescendant (tablePage ''Status'' []) isStatisticsTable = None"
    by (simp add: tablePage_def tableNode_def isStatisticsTable_def getAttribute_def
        findDescendant.simps(1))
  show ?thesis
    using absent_table_registry_succeeds_statistics_fails
      [of "tablePage ''Status'' []" laptopMemory doubling 1700000000000] a b
    by simp
qed

subsection \<open>Parsing a cell\<close>

lemma decimalDigits_ge: "n \<le> decimalDigits n cs"
proof (induction cs arbitrary: n)
  case Nil
  show ?case by simp
next
  case (Cons c cs)
  have "n \<le> n * 10 + (of_char c - 48)" by simp
  also have "\<dots> \<le> decimalDigits (n * 10 + (of_char c - 48)) cs" by (rule Cons.IH)
  finally show ?case by simp
qed

lemma digitVal_isDigit: "isDigit c \<Longrightarrow> digitVal c = Some (of_char c - 48)"
  by (simp add: isDigit_def digitVal_def Let_def)

lemma ParseUint_loop_decimal:
  assumes "list_all isDigit cs" and "n \<le> maxVal" and "maxVal < cutoff" and "maxVal < 2 ^ 64"
  shows "ParseUint_loop 10 cutoff maxVal n cs =
           (if decimalDigits n cs \<le> maxVal then Inr (decimalDigits n cs) else Inl ErrRange)"
  using assms
proof (induction cs arbitrary: n)
  case Nil
  then show ?case by simp
next
  case (Cons c cs)
  let ?d = "of_char c - 48 :: nat"
  let ?n1 = "n * 10 + ?d"
  from Cons.prems have dig: "isDigit c" and rest: "list_all isDigit cs" by simp_all
  have d10: "?d < 10" using dig unfolding isDigit_def by arith
  have ncut: "\<not> cutoff \<le> n" using Cons.prems by simp
  show ?case
  proof (cases "?n1 \<le> maxVal")
    case True
    then have "\<not> (2 ^ 64 \<le> ?n1 \<or> maxVal < ?n1)" using Cons.prems by simp
    then show ?thesis
      using Cons.IH [OF rest True Cons.prems(3) Cons.prems(4)] d10 ncut
      by (simp add: digitVal_isDigit [OF dig] Let_def)
  next
    case False
    then have "maxVal < decimalDigits ?n1 cs"
      using decimalDigits_ge [of ?n1 cs] by simp
    then show ?thesis
      using False d10 ncut by (simp add: digitVal_isDigit [OF dig] Let_def)
  qed
qed

lemma ParseUint_decimal:
  assumes "cs \<noteq> []" and "list_all isDigit cs"
  shows "ParseUint cs 10 32 =
           (if decimalDigits 0 cs \<le> 4294967295 then Inr (decimalDigits 0 cs) else Inl ErrRange)"
proof -
  have "ParseUint_loop 10 ((2 ^ 64 - 1) div 10 + 1) (2 ^ 32 - 1) 0 cs =
       (if decimalDigits 0 cs \<le> 2 ^ 32 - 1 then Inr (decimalDigits 0 cs) else Inl ErrRange)"
    by (rule ParseUint_loop_decimal [OF assms(2)]) simp_all
  then show ?thesis using assms(1) by (simp add: ParseUint_def)
qed

lemma ParseInt_decimal:
  assumes "isDecimal s"
  shows "ParseInt s 10 32 =
           (if - 2147483648 \<le> decimalValue s \<and> decimalValue s \<le> 2147483647
            then Inr (word_of_int (decimalValue s)) else Inl ErrRange)"
proof (cases s)
  case Nil
  with assms show ?thesis by (simp add: isDecimal_def)
next
  case (Cons c cs)
  show ?thesis
  proof (cases "c = CHR ''+'' \<or> c = CHR ''-''")
    case True
    with assms Cons have ne: "cs \<noteq> []" and dig: "list_all isDigit cs"
      by (simp_all add: isDecimal_def)
    show ?thesis
      using True Cons ParseUint_decimal [OF ne dig]
      by (auto simp: ParseInt_def decimalValue_def Let_def)
  next
    case False
    with assms Cons have dig: "list_all isDigit (c # cs)"
      by (simp add: isDecimal_def)
    have "ParseUint (c # cs) 10 32 =
       (if decimalDigits 0 (c # cs) \<le> 4294967295 then Inr (decimalDigits 0 (c # cs))
        else Inl ErrRange)"
      by (rule ParseUint_decimal [OF _ dig]) simp
    then show ?thesis
      using False Cons
      by (auto simp: ParseInt_def decimalValue_def Let_def)
  qed
qed


text \<open>
  Claim C10. The series hold 64-bit integers, but the statistics pass parses a cell with
  the bit size 32 (lines 179 and 184). For a cell whose trimmed text is a base-10 integer
  below \<open>-2147483648\<close> or above \<open>2147483647\<close> the parse returns a range error, and
  the cell, in whatever column and for whatever device, leaves the memory as it was:
  nothing is appended.
\<close>

theorem out_of_int32_range_cell_not_appended:
  assumes "isDecimal (Trim (getInnerText td) cutset)"
    and "decimalValue (Trim (getInnerText td) cutset) < - 2147483648 \<or>
         2147483647 < decimalValue (Trim (getInnerText td) cutset)"
  shows "ParseInt (Trim (getInnerText td) cutset) 10 32 = Inl ErrRange \<and>
         snd (fetchLanStatistics_cell spare td columnIndex deviceData s) = s"
proof -
  have p: "ParseInt (Trim (getInnerText td) cutset) 10 32 = Inl ErrRange"
    using ParseInt_decimal [OF assms(1)] assms(2) by auto
  show ?thesis
    by (simp add: p fetchLanStatistics_cell_def Let_def split: option.splits)
qed

theorem out_of_int32_range_cell_witness:
  "isDecimal (Trim (getInnerText (cellNode (Td, '' 3000000000'') None)) cutset) \<and>
   2147483647 < decimalValue (Trim (getInnerText (cellNode (Td, '' 3000000000'') None)) cutset) \<and>
   ParseInt ''3000000000'' 10 32 = Inl ErrRange \<and>
   snd (fetchLanStatistics_cell doubling (cellNode (Td, '' 3000000000'') None) 7 (Some 0)
          laptopMemory) = laptopMemory"
proof -
  have t: "Trim '' 3000000000'' cutset = ''3000000000''"
    by (simp add: Trim_def cutset_def)
  have a: "isDecimal ''3000000000''"
    by (simp add: isDecimal_def isDigit_def)
  have b: "2147483647 < decimalValue ''3000000000''"
    by (simp add: decimalValue_def)
  show ?thesis
    using out_of_int32_range_cell_not_appended
      [of "cellNode (Td, '' 3000000000'') None" doubling 7 "Some 0" laptopMemory] a b
    by (simp add: t)
qed

subsection \<open>One device, one statistics row\<close>

lemma ParseInt_1024: "ParseInt ''1024'' 10 32 = Inr 1024"
  by (simp add: ParseInt_decimal isDecimal_def isDigit_def decimalValue_def)

lemma ParseInt_2048: "ParseInt ''2048'' 10 32 = Inr 2048"
  by (simp add: ParseInt_decimal isDecimal_def isDigit_def decimalValue_def)

lemma Trim_examples [simp]:
  "Trim ''AA:BB:CC:DD:EE:FF'' cutset = ''AA:BB:CC:DD:EE:FF''"
  "Trim ''1024'' cutset = ''1024''"
  "Trim ''2048'' cutset = ''2048''"
  by (simp_all add: Trim_def cutset_def)

lemma cell_column_0:
  "col = 0 \<Longrightarrow> fetchLanStatistics_cell spare td col dd s
     = (macAddressToDevice (chartData s) (Trim (getInnerText td) cutset), s)"
  by (simp add: fetchLanStatistics_cell_def Let_def split: option.splits)

lemma cell_column_7:
  "col = 7 \<Longrightarrow> fetchLanStatistics_cell spare td col (Some p) s
     = (Some p, case ParseInt (Trim (getInnerText td) cutset) 10 32 of
                  Inr bytes \<Rightarrow> appendTransmitBytes spare p bytes s | Inl err \<Rightarrow> s)"
  by (simp add: fetchLanStatistics_cell_def Let_def split: sum.splits)

lemma cell_column_8:
  "col = 8 \<Longrightarrow> fetchLanStatistics_cell spare td col (Some p) s
     = (Some p, case ParseInt (Trim (getInnerText td) cutset) 10 32 of
                  Inr bytes \<Rightarrow> assignReceiveBytes spare p bytes s | Inl err \<Rightarrow> s)"
  by (simp add: fetchLanStatistics_cell_def Let_def split: sum.splits)

lemma cell_column_other:
  "col \<noteq> 0 \<Longrightarrow> col \<noteq> 7 \<Longrightarrow> col \<noteq> 8 \<Longrightarrow> fetchLanStatistics_cell spare td col dd s = (dd, s)"
  by (simp add: fetchLanStatistics_cell_def Let_def split: option.splits)

lemma laptop_lookup [simp]:
  "macAddressToDevice (chartData laptopMemory) ''AA:BB:CC:DD:EE:FF'' = Some 0"
  by (simp add: laptopMemory_def)

lemma row_laptop:
  "macAddressToDevice (chartData s) ''AA:BB:CC:DD:EE:FF'' = Some 0 \<Longrightarrow>
   fetchLanStatistics_row spare
     (rowNode (statisticsRow ''AA:BB:CC:DD:EE:FF'' ''1024'' ''2048'') next) s
   = assignReceiveBytes spare 0 2048 (appendTransmitBytes spare 0 1024 s)"
  by (simp add: fetchLanStatistics_row_def statisticsRow_def isTd_def
      findFollowupSibling_def ParseInt_1024 ParseInt_2048
      cell_column_0 cell_column_7 cell_column_8 cell_column_other)


lemma laptop_appends:
  "transmitSeries (assignReceiveBytes spare 0 2048 (appendTransmitBytes spare 0 1024
      (laptopMemory\<lparr>chartData := c\<rparr>))) 0 = [1024] \<and>
   receiveSeries (assignReceiveBytes spare 0 2048 (appendTransmitBytes spare 0 1024
      (laptopMemory\<lparr>chartData := c\<rparr>))) 0 = [1024, 2048]"
proof (cases "spare 0 1")
  case 0
  then show ?thesis
    by (simp add: appendTransmitBytes_def assignReceiveBytes_def append_int64_def
        laptopMemory_def emptySlice_def elems_def transmitSeries_def receiveSeries_def Let_def)
next
  case (Suc k)
  then show ?thesis
    by (simp add: appendTransmitBytes_def assignReceiveBytes_def append_int64_def
        laptopMemory_def emptySlice_def elems_def transmitSeries_def receiveSeries_def Let_def)
qed

text \<open>
  Claim C1, at the scenario the specification gives: the registry pass has registered the
  laptop, and the statistics page has one data row with the laptop's address in column 0,
  \<open>1024\<close> in column 7 and \<open>2048\<close> in column 8. The transmit series becomes \<open>[1024]\<close>.
  The receive series does not become \<open>[2048]\<close>: line 185 appends to the transmit series and
  assigns the result to the receive series, which becomes \<open>[1024, 2048]\<close>. This holds for
  every growth policy of \<^verbatim>\<open>append\<close> and every time of the fetch.
\<close>

theorem scenario_receive_series_holds_transmit_value:
  "transmitSeries (snd (fetchLanStatistics spare now
       (Inr (statisticsPage [headerRow, statisticsRow ''AA:BB:CC:DD:EE:FF'' ''1024'' ''2048'']))
       (snd (fetchDevices (Inr (devicesPage (deviceRows ''AA:BB:CC:DD:EE:FF'' ''laptop'')))
               initial)))) 0 = [1024] \<and>
   receiveSeries (snd (fetchLanStatistics spare now
       (Inr (statisticsPage [headerRow, statisticsRow ''AA:BB:CC:DD:EE:FF'' ''1024'' ''2048'']))
       (snd (fetchDevices (Inr (devicesPage (deviceRows ''AA:BB:CC:DD:EE:FF'' ''laptop'')))
               initial)))) 0 = [1024, 2048]"
proof -
  have "snd (fetchLanStatistics spare now
       (Inr (statisticsPage [headerRow, statisticsRow ''AA:BB:CC:DD:EE:FF'' ''1024'' ''2048'']))
       laptopMemory)
    = assignReceiveBytes spare 0 2048 (appendTransmitBytes spare 0 1024
        (laptopMemory\<lparr>chartData := (chartData laptopMemory)\<lparr>FetchMilliseconds :=
            FetchMilliseconds (chartData laptopMemory) @ [now]\<rparr>\<rparr>))"
    by (simp add: fetchLanStatistics_def Let_def findFollowupSibling_def row_laptop)
  then show ?thesis
    using laptop_appends [of spare] by (simp add: registry_pass_laptop)
qed

subsection \<open>The map and the list of devices\<close>

lemma viewsAgree_initial: "viewsAgree initial"
  by (simp add: viewsAgree_def initial_def)

lemma viewsAgree_insert:
  assumes "viewsAgree s" and "macAddressToDevice (chartData s) mac = None"
  shows "viewsAgree (fetchDevices_insert mac name s)"
proof -
  let ?m = "macAddressToDevice (chartData s)"
  let ?n = "length (deviceObjects s)"
  from assms(1) have d: "Devices (chartData s) = [0 ..< ?n]"
    and r: "ran ?m = {0 ..< ?n}" and i: "inj_on ?m (dom ?m)"
    by (simp_all add: viewsAgree_def)
  have r': "ran (?m(mac \<mapsto> ?n)) = {0 ..< Suc ?n}"
    using assms(2) r by (auto simp: ran_map_upd)
  have fresh: "\<And>k. ?m k \<noteq> Some ?n"
  proof
    fix k assume "?m k = Some ?n"
    then have "?n \<in> ran ?m" by (rule ranI)
    with r show False by simp
  qed
  have i': "inj_on (?m(mac \<mapsto> ?n)) (dom (?m(mac \<mapsto> ?n)))"
  proof (rule inj_onI)
    fix x y
    assume x: "x \<in> dom (?m(mac \<mapsto> ?n))" and y: "y \<in> dom (?m(mac \<mapsto> ?n))"
      and e: "(?m(mac \<mapsto> ?n)) x = (?m(mac \<mapsto> ?n)) y"
    show "x = y"
    proof (cases "x = mac")
      case True
      show ?thesis
      proof (cases "y = mac")
        case True
        with \<open>x = mac\<close> show ?thesis by simp
      next
        case False
        with True e have "?m y = Some ?n" by simp
        with fresh show ?thesis by simp
      qed
    next
      case False
      show ?thesis
      proof (cases "y = mac")
        case True
        with False e have "?m x = Some ?n" by simp
        with fresh show ?thesis by simp
      next
        case ny: False
        with False e x y have "?m x = ?m y" "x \<in> dom ?m" "y \<in> dom ?m" by auto
        with i show ?thesis by (auto dest: inj_onD)
      qed
    qed
  qed
  show ?thesis
    using d r' i' by (simp add: viewsAgree_def fetchDevices_insert_def Let_def)
qed

text \<open>
  The registry loop changes the memory by \<open>fetchDevices_insert\<close> only, and only for an
  address the map does not hold: what such insertions preserve, the loop preserves.
\<close>

lemma fetchDevices_loop_invariant:
  assumes ins: "\<And>s mac name. P s \<Longrightarrow> macAddressToDevice (chartData s) mac = None \<Longrightarrow>
                 P (fetchDevices_insert mac name s)"
  shows "P s \<Longrightarrow> P (snd (fetchDevices_loop tr s))"
proof (induction tr s rule: fetchDevices_loop.induct)
  case (1 s)
  then show ?case by simp
next
  case (2 tr s)
  show ?case
  proof (cases "findDescendant tr isMacAddressTh")
    case None
    then show ?thesis using "2.IH"(1) "2.prems" by simp
  next
    case (Some th)
    note th = this
    show ?thesis
    proof (cases "findDescendant tr isTd")
      case None
      then show ?thesis using "2.IH"(2) [OF th] "2.prems" th by simp
    next
      case (Some td)
      note td = this
      show ?thesis
      proof (cases "macAddressToDevice (chartData s) (Trim (getInnerText td) cutset)")
        case (Some p)
        then show ?thesis using "2.IH"(3) [OF th td] "2.prems" th td by simp
      next
        case None
        note fresh = this
        show ?thesis
        proof (cases "findFollowupSibling tr")
          case None
          then show ?thesis using "2.prems" th td fresh by simp
        next
          case (Some tr2)
          note tr2 = this
          show ?thesis
          proof (cases "findDescendant tr2 isTd")
            case None
            then show ?thesis
              using "2.IH"(4) [OF th td _ tr2] "2.prems" th td fresh tr2 by simp
          next
            case (Some td2)
            then show ?thesis
              using "2.IH"(5) [OF th td _ tr2 Some] ins [OF "2.prems" fresh]
                th td fresh tr2 by simp
          qed
        qed
      qed
    qed
  qed
qed

lemma viewsAgree_fetchDevices:
  "viewsAgree s \<Longrightarrow> viewsAgree (snd (fetchDevices fetched s))"
  by (simp add: fetchDevices_def fetchDevices_loop_invariant [where P = viewsAgree]
      viewsAgree_insert split: sum.splits option.splits)


lemma length_deviceObjects_appendTransmitBytes [simp]:
  "length (deviceObjects (appendTransmitBytes spare p b s)) = length (deviceObjects s)"
  by (simp add: appendTransmitBytes_def Let_def)

lemma length_deviceObjects_assignReceiveBytes [simp]:
  "length (deviceObjects (assignReceiveBytes spare p b s)) = length (deviceObjects s)"
  by (simp add: assignReceiveBytes_def Let_def)

lemma length_deviceObjects_cell [simp]:
  "length (deviceObjects (snd (fetchLanStatistics_cell spare td col dd s)))
     = length (deviceObjects s)"
  by (simp add: fetchLanStatistics_cell_def Let_def split: option.splits sum.splits)

lemma length_deviceObjects_cells [simp]:
  "length (deviceObjects (fetchLanStatistics_cells spare p col dd s)) = length (deviceObjects s)"
  by (induction spare p col dd s rule: fetchLanStatistics_cells.induct) simp_all

lemma length_deviceObjects_rows [simp]:
  "length (deviceObjects (fetchLanStatistics_rows spare p s)) = length (deviceObjects s)"
  by (induction spare p s rule: fetchLanStatistics_rows.induct)
     (simp_all add: fetchLanStatistics_row_def)

lemma chartData_fetchLanStatistics:
  "chartData (snd (fetchLanStatistics spare now fetched s))
     = (chartData s)\<lparr>FetchMilliseconds := FetchMilliseconds (chartData s) @ [now]\<rparr>"
  by (simp add: fetchLanStatistics_def Let_def split: sum.splits option.splits)

lemma length_deviceObjects_fetchLanStatistics [simp]:
  "length (deviceObjects (snd (fetchLanStatistics spare now fetched s)))
     = length (deviceObjects s)"
  by (simp add: fetchLanStatistics_def Let_def split: sum.splits option.splits)

lemma viewsAgree_fetchLanStatistics:
  "viewsAgree s \<Longrightarrow> viewsAgree (snd (fetchLanStatistics spare now fetched s))"
  by (simp add: viewsAgree_def chartData_fetchLanStatistics)

lemma runs_viewsAgree: "runs ok spare s \<Longrightarrow> viewsAgree s"
  by (induction rule: runs.induct)
     (simp_all add: viewsAgree_initial viewsAgree_fetchDevices viewsAgree_fetchLanStatistics)


lemma series_of_new_device:
  "transmitSeries (fetchDevices_insert mac name s) (length (deviceObjects s)) = [] \<and>
   receiveSeries (fetchDevices_insert mac name s) (length (deviceObjects s)) = []"
  by (simp add: fetchDevices_insert_def transmitSeries_def receiveSeries_def Let_def
      emptySlice_def elems_def)

text \<open>
  Claim C7. In every memory the program can reach, the objects the map points to are the
  objects the list holds, the list holds each once, and they are all the \<^verbatim>\<open>DeviceData\<close>
  objects there are. The registry pass changes the two views in one place only (lines
  142-143): for an address not in the map it stores the pointer to the new object in the
  map and appends it to the list, the two views agree again, and both series of the new
  object are empty. The statistics pass changes neither view.
\<close>

theorem map_and_list_hold_the_same_records:
  assumes "runs ok spare s"
  shows "ran (macAddressToDevice (chartData s)) = set (Devices (chartData s)) \<and>
         distinct (Devices (chartData s)) \<and>
         set (Devices (chartData s)) = {0 ..< length (deviceObjects s)} \<and>
         (macAddressToDevice (chartData s) mac = None \<longrightarrow>
            macAddressToDevice (chartData (fetchDevices_insert mac name s)) mac
              = Some (length (deviceObjects s)) \<and>
            Devices (chartData (fetchDevices_insert mac name s))
              = Devices (chartData s) @ [length (deviceObjects s)] \<and>
            ran (macAddressToDevice (chartData (fetchDevices_insert mac name s)))
              = set (Devices (chartData (fetchDevices_insert mac name s))) \<and>
            transmitSeries (fetchDevices_insert mac name s) (length (deviceObjects s)) = [] \<and>
            receiveSeries (fetchDevices_insert mac name s) (length (deviceObjects s)) = [])"
proof -
  have v: "viewsAgree s" using assms by (rule runs_viewsAgree)
  have a: "ran (macAddressToDevice (chartData s)) = set (Devices (chartData s))"
    and b: "distinct (Devices (chartData s))"
    and c: "set (Devices (chartData s)) = {0 ..< length (deviceObjects s)}"
    using v by (simp_all add: viewsAgree_def)
  have d: "macAddressToDevice (chartData s) mac = None \<longrightarrow>
            macAddressToDevice (chartData (fetchDevices_insert mac name s)) mac
              = Some (length (deviceObjects s)) \<and>
            Devices (chartData (fetchDevices_insert mac name s))
              = Devices (chartData s) @ [length (deviceObjects s)] \<and>
            ran (macAddressToDevice (chartData (fetchDevices_insert mac name s)))
              = set (Devices (chartData (fetchDevices_insert mac name s))) \<and>
            transmitSeries (fetchDevices_insert mac name s) (length (deviceObjects s)) = [] \<and>
            receiveSeries (fetchDevices_insert mac name s) (length (deviceObjects s)) = []"
  proof
    assume fresh: "macAddressToDevice (chartData s) mac = None"
    have v': "viewsAgree (fetchDevices_insert mac name s)"
      using v fresh by (rule viewsAgree_insert)
    have "ran (macAddressToDevice (chartData (fetchDevices_insert mac name s)))
              = set (Devices (chartData (fetchDevices_insert mac name s)))"
      using v' by (simp add: viewsAgree_def)
    moreover have "macAddressToDevice (chartData (fetchDevices_insert mac name s)) mac
              = Some (length (deviceObjects s))"
      by (simp add: fetchDevices_insert_def Let_def)
    moreover have "Devices (chartData (fetchDevices_insert mac name s))
              = Devices (chartData s) @ [length (deviceObjects s)]"
      by (simp add: fetchDevices_insert_def Let_def)
    ultimately show "macAddressToDevice (chartData (fetchDevices_insert mac name s)) mac
              = Some (length (deviceObjects s)) \<and>
            Devices (chartData (fetchDevices_insert mac name s))
              = Devices (chartData s) @ [length (deviceObjects s)] \<and>
            ran (macAddressToDevice (chartData (fetchDevices_insert mac name s)))
              = set (Devices (chartData (fetchDevices_insert mac name s))) \<and>
            transmitSeries (fetchDevices_insert mac name s) (length (deviceObjects s)) = [] \<and>
            receiveSeries (fetchDevices_insert mac name s) (length (deviceObjects s)) = []"
      using series_of_new_device [of mac name s] by simp
  qed
  from a b c d show ?thesis by simp
qed

theorem map_and_list_witness:
  "runs anyDocument doubling laptopMemory \<and>
   ran (macAddressToDevice (chartData laptopMemory)) = set (Devices (chartData laptopMemory)) \<and>
   distinct (Devices (chartData laptopMemory)) \<and>
   macAddressToDevice (chartData laptopMemory) ''11:22:33:44:55:66'' = None \<and>
   macAddressToDevice (chartData (fetchDevices_insert ''11:22:33:44:55:66'' ''phone'' laptopMemory))
     ''11:22:33:44:55:66'' = Some 1 \<and>
   Devices (chartData (fetchDevices_insert ''11:22:33:44:55:66'' ''phone'' laptopMemory)) = [0, 1]"
proof -
  have r: "runs anyDocument doubling laptopMemory"
    using runs.registry [OF runs.start, of anyDocument doubling
        "Inr (devicesPage (deviceRows ''AA:BB:CC:DD:EE:FF'' ''laptop''))"]
    by (simp add: registry_pass_laptop)
  have f: "macAddressToDevice (chartData laptopMemory) ''11:22:33:44:55:66'' = None"
    by (simp add: laptopMemory_def)
  have l: "length (deviceObjects laptopMemory) = 1" "Devices (chartData laptopMemory) = [0]"
    by (simp_all add: laptopMemory_def)
  show ?thesis
    using map_and_list_hold_the_same_records [OF r, of "''11:22:33:44:55:66''" "''phone''"] r f l
    by simp
qed

subsection \<open>The transmit series and the fetch timestamps\<close>

lemma sl_len_append_int64 [simp]: "sl_len (fst (append_int64 spare sl v h)) = sl_len sl + 1"
  by (simp add: append_int64_def Let_def)

lemma transmitLen_appendTransmitBytes:
  "transmitLen (appendTransmitBytes spare p b s) q
     = (if q = p \<and> p < length (deviceObjects s) then transmitLen s q + 1 else transmitLen s q)"
  by (simp add: transmitLen_def appendTransmitBytes_def Let_def nth_list_update)

lemma transmitLen_assignReceiveBytes [simp]:
  "transmitLen (assignReceiveBytes spare p b s) q = transmitLen s q"
  by (simp add: transmitLen_def assignReceiveBytes_def Let_def nth_list_update)

lemma transmitLen_cell:
  "0 < col \<Longrightarrow>
   fst (fetchLanStatistics_cell spare td col dd s) = dd \<and>
   transmitLen (snd (fetchLanStatistics_cell spare td col dd s)) q
     \<le> transmitLen s q + (if dd = Some q \<and> col = 7 then 1 else 0)"
  by (simp add: fetchLanStatistics_cell_def Let_def transmitLen_appendTransmitBytes
      split: option.splits sum.splits)

lemma transmitLen_cells:
  "0 < col \<Longrightarrow>
   transmitLen (fetchLanStatistics_cells spare cur col dd s) q
     \<le> transmitLen s q + (if dd = Some q \<and> col \<le> 7 then 1 else 0)"
proof (induction spare cur col dd s rule: fetchLanStatistics_cells.induct)
  case (1 spare col dd s)
  then show ?case by simp
next
  case (2 spare td col dd s)
  let ?s1 = "snd (fetchLanStatistics_cell spare td col dd s)"
  from "2.prems" have c: "fst (fetchLanStatistics_cell spare td col dd s) = dd"
    and l: "transmitLen ?s1 q \<le> transmitLen s q + (if dd = Some q \<and> col = 7 then 1 else 0)"
    using transmitLen_cell [of col spare td dd s q] by simp_all
  have "transmitLen (fetchLanStatistics_cells spare (findFollowupSibling td) (col + 1) dd ?s1) q
      \<le> transmitLen ?s1 q + (if dd = Some q \<and> col + 1 \<le> 7 then 1 else 0)"
    using "2.IH" c by simp
  with l show ?case using c by (auto split: if_splits)
qed

lemma transmitLen_row:
  "transmitLen (fetchLanStatistics_row spare tr s) q
     \<le> transmitLen s q + (if rowDevice s tr = Some q then 1 else 0)"
proof (cases "findDescendant tr isTd")
  case None
  then show ?thesis by (simp add: fetchLanStatistics_row_def)
next
  case (Some td)
  have c0: "fetchLanStatistics_cell spare td 0 None s
      = (macAddressToDevice (chartData s) (Trim (getInnerText td) cutset), s)"
    by (simp add: cell_column_0)
  have "transmitLen (fetchLanStatistics_cells spare (findFollowupSibling td) 1
           (macAddressToDevice (chartData s) (Trim (getInnerText td) cutset)) s) q
     \<le> transmitLen s q +
        (if macAddressToDevice (chartData s) (Trim (getInnerText td) cutset) = Some q \<and>
            (1::nat) \<le> 7 then 1 else 0)"
    by (rule transmitLen_cells) simp
  then show ?thesis
    using Some c0 by (simp add: fetchLanStatistics_row_def rowDevice_def rowAddress_def)
qed

lemma rowDevice_chartData: "chartData s' = chartData s \<Longrightarrow> rowDevice s' tr = rowDevice s tr"
  by (cases "rowAddress tr") (simp_all add: rowDevice_def)

lemma chartData_row [simp]: "chartData (fetchLanStatistics_row spare tr s) = chartData s"
  by (simp add: fetchLanStatistics_row_def)

lemma transmitLen_rows:
  "transmitLen (fetchLanStatistics_rows spare cur s) q
     \<le> transmitLen s q + length (filter (\<lambda>tr. rowDevice s tr = Some q) (followups cur))"
proof (induction spare cur s rule: fetchLanStatistics_rows.induct)
  case (1 spare s)
  then show ?case by simp
next
  case (2 spare tr s)
  let ?s1 = "fetchLanStatistics_row spare tr s"
  have same: "\<And>r. rowDevice ?s1 r = rowDevice s r"
    by (rule rowDevice_chartData) simp
  have "transmitLen (fetchLanStatistics_rows spare (findFollowupSibling tr) ?s1) q
      \<le> transmitLen ?s1 q +
         length (filter (\<lambda>r. rowDevice s r = Some q) (followups (findFollowupSibling tr)))"
    using "2.IH" by (simp add: same)
  then show ?case
    using transmitLen_row [of spare tr s q]
    by (cases "rowDevice s tr = Some q") simp_all
qed

lemma one_row_per_device:
  assumes "inj_on m (dom m)" and "distinct (List.map_filter f rows)"
  shows "length (filter (\<lambda>r. (case f r of None \<Rightarrow> None | Some a \<Rightarrow> m a) = Some q) rows) \<le> 1"
  using assms(2)
proof (induction rows)
  case Nil
  then show ?case by simp
next
  case (Cons r rows)
  show ?case
  proof (cases "f r")
    case None
    with Cons show ?thesis by (simp add: List.map_filter_simps)
  next
    case (Some a)
    with Cons.prems have d: "distinct (List.map_filter f rows)"
      and na: "a \<notin> set (List.map_filter f rows)"
      by (simp_all add: List.map_filter_simps)
    show ?thesis
    proof (cases "m a = Some q")
      case False
      with Some Cons.IH [OF d] show ?thesis by simp
    next
      case True
      have "filter (\<lambda>r. (case f r of None \<Rightarrow> None | Some a \<Rightarrow> m a) = Some q) rows = []"
      proof (rule ccontr)
        assume "filter (\<lambda>r. (case f r of None \<Rightarrow> None | Some a \<Rightarrow> m a) = Some q) rows \<noteq> []"
        then obtain r' where r': "r' \<in> set rows"
          and q': "(case f r' of None \<Rightarrow> None | Some a \<Rightarrow> m a) = Some q"
          by (auto simp: filter_empty_conv)
        from q' obtain b where b: "f r' = Some b" and mb: "m b = Some q"
          by (auto split: option.splits)
        from True mb have "m a = m b" "a \<in> dom m" "b \<in> dom m" by auto
        with assms(1) have "a = b" by (simp add: inj_on_def)
        moreover from r' b have "b \<in> set (List.map_filter f rows)"
          by (auto simp: List.map_filter_def intro!: image_eqI [where x = r'])
        ultimately show False using na by simp
      qed
      with Some True show ?thesis by simp
    qed
  qed
qed

lemma transmitBound_initial: "transmitBound initial"
  by (simp add: transmitBound_def initial_def)

lemma transmitBound_insert:
  "transmitBound s \<Longrightarrow> transmitBound (fetchDevices_insert mac name s)"
  by (auto simp: transmitBound_def fetchDevices_insert_def Let_def transmitLen_def
      nth_append emptySlice_def)

lemma transmitBound_fetchDevices:
  "transmitBound s \<Longrightarrow> transmitBound (snd (fetchDevices fetched s))"
  by (simp add: fetchDevices_def fetchDevices_loop_invariant [where P = transmitBound]
      transmitBound_insert split: sum.splits option.splits)

lemma transmitLen_timestamp [simp]:
  "transmitLen (s\<lparr>chartData := c\<rparr>) q = transmitLen s q"
  by (simp add: transmitLen_def)

lemma rowDevice_timestamp [simp]:
  "rowDevice (s\<lparr>chartData := (chartData s)\<lparr>FetchMilliseconds := t\<rparr>\<rparr>) tr = rowDevice s tr"
  by (rule rowDevice_chartData [THEN trans, of _ "s\<lparr>chartData := (chartData s)\<lparr>FetchMilliseconds := t\<rparr>\<rparr>"])
     (simp_all add: rowDevice_def split: option.splits)

lemma transmitBound_fetchLanStatistics:
  assumes b: "transmitBound s" and v: "viewsAgree s" and o: "oneRowPerAddress fetched"
  shows "transmitBound (snd (fetchLanStatistics spare now fetched s))"
proof -
  let ?s1 = "s\<lparr>chartData := (chartData s)\<lparr>FetchMilliseconds :=
               FetchMilliseconds (chartData s) @ [now]\<rparr>\<rparr>"
  have inj: "inj_on (macAddressToDevice (chartData s)) (dom (macAddressToDevice (chartData s)))"
    using v by (simp add: viewsAgree_def)
  have grow: "\<And>cur q. distinct (List.map_filter rowAddress (followups cur)) \<Longrightarrow>
      transmitLen (fetchLanStatistics_rows spare cur ?s1) q \<le> transmitLen s q + 1"
  proof -
    fix cur q
    assume d: "distinct (List.map_filter rowAddress (followups cur))"
    have "length (filter (\<lambda>r. (case rowAddress r of None \<Rightarrow> None
              | Some a \<Rightarrow> macAddressToDevice (chartData s) a) = Some q) (followups cur)) \<le> 1"
      using inj d by (rule one_row_per_device)
    then have "length (filter (\<lambda>r. rowDevice s r = Some q) (followups cur)) \<le> 1"
      by (simp add: rowDevice_def)
    then have "length (filter (\<lambda>r. rowDevice ?s1 r = Some q) (followups cur)) \<le> 1"
      by simp
    then show "transmitLen (fetchLanStatistics_rows spare cur ?s1) q \<le> transmitLen s q + 1"
      using transmitLen_rows [of spare cur ?s1 q] by simp
  qed
  show ?thesis
  proof (cases fetched)
    case (Inl err)
    then show ?thesis
      using b by (auto simp: fetchLanStatistics_def Let_def transmitBound_def)
  next
    case (Inr doc)
    show ?thesis
    proof (cases "findDescendant doc isStatisticsTable")
      case None
      then show ?thesis
        using b Inr by (auto simp: fetchLanStatistics_def Let_def transmitBound_def)
    next
      case (Some table)
      note table = this
      show ?thesis
      proof (cases "findDescendant table isTr")
        case None
        then show ?thesis
          using b Inr table by (auto simp: fetchLanStatistics_def Let_def transmitBound_def)
      next
        case (Some tr)
        have d: "distinct (List.map_filter rowAddress (followups (findFollowupSibling tr)))"
          using o Inr table Some by (simp add: oneRowPerAddress_def statisticsRows_def)
        have r: "snd (fetchLanStatistics spare now fetched s)
            = fetchLanStatistics_rows spare (findFollowupSibling tr) ?s1"
          using Inr table Some by (simp add: fetchLanStatistics_def Let_def)
        show ?thesis
          unfolding r transmitBound_def
        proof (intro allI impI)
          fix p
          assume "p < length (deviceObjects
                    (fetchLanStatistics_rows spare (findFollowupSibling tr) ?s1))"
          then have p: "p < length (deviceObjects s)" by simp
          have "transmitLen (fetchLanStatistics_rows spare (findFollowupSibling tr) ?s1) p
                \<le> transmitLen s p + 1"
            using d by (rule grow)
          moreover have "transmitLen s p \<le> length (FetchMilliseconds (chartData s))"
            using b p by (simp add: transmitBound_def)
          ultimately show "transmitLen (fetchLanStatistics_rows spare (findFollowupSibling tr) ?s1) p
                \<le> length (FetchMilliseconds (chartData
                      (fetchLanStatistics_rows spare (findFollowupSibling tr) ?s1)))"
            by simp
        qed
      qed
    qed
  qed
qed

lemma runs_transmitBound: "runs oneRowPerAddress spare s \<Longrightarrow> transmitBound s"
proof (induction rule: runs.induct)
  case start
  show ?case by (rule transmitBound_initial)
next
  case (registry s fetched)
  then show ?case by (simp add: transmitBound_fetchDevices)
next
  case (statistics s fetched now)
  then show ?case
    by (simp add: transmitBound_fetchLanStatistics runs_viewsAgree)
qed

lemma length_elems_le: "length (elems h sl) \<le> sl_len sl"
  by (simp add: elems_def)

text \<open>
  Claim C2, as amended. Take the runs from the empty store in which no statistics document
  is read with the same address in two data rows. In every memory such a run reaches, and
  for every device of the list, the transmit series is no longer than the fetch
  timestamps: both the length of its header and the number of its elements.

  (The claim as stated also bounds the receive series, and allows every document. It fails
  on a document that lists one address twice, see the theorem after the next.)
\<close>

theorem transmit_series_never_leads_timestamps:
  assumes "runs oneRowPerAddress spare s" and "p \<in> set (Devices (chartData s))"
  shows "sl_len (TransmitBytes (deviceObjects s ! p)) \<le> length (FetchMilliseconds (chartData s)) \<and>
         length (transmitSeries s p) \<le> length (FetchMilliseconds (chartData s))"
proof -
  have "viewsAgree s" using assms(1) by (rule runs_viewsAgree)
  with assms(2) have p: "p < length (deviceObjects s)" by (simp add: viewsAgree_def)
  have "transmitBound s" using assms(1) by (rule runs_transmitBound)
  with p have a: "sl_len (TransmitBytes (deviceObjects s ! p))
      \<le> length (FetchMilliseconds (chartData s))"
    by (simp add: transmitBound_def transmitLen_def)
  have "length (transmitSeries s p) \<le> sl_len (TransmitBytes (deviceObjects s ! p))"
    by (simp add: transmitSeries_def length_elems_le)
  with a show ?thesis by simp
qed

lemma row_statisticsRow:
  "fetchLanStatistics_row spare (rowNode (statisticsRow mac tx rx) next) s =
     (case macAddressToDevice (chartData s) (Trim mac cutset) of
        None \<Rightarrow> s
      | Some p \<Rightarrow>
         (case ParseInt (Trim rx cutset) 10 32 of
            Inr b \<Rightarrow> assignReceiveBytes spare p b
                       (case ParseInt (Trim tx cutset) 10 32 of
                          Inr a \<Rightarrow> appendTransmitBytes spare p a s | Inl e \<Rightarrow> s)
          | Inl e \<Rightarrow> (case ParseInt (Trim tx cutset) 10 32 of
                          Inr a \<Rightarrow> appendTransmitBytes spare p a s | Inl e \<Rightarrow> s)))"
proof (cases "macAddressToDevice (chartData s) (Trim mac cutset)")
  case None
  then show ?thesis
    by (simp add: fetchLanStatistics_row_def statisticsRow_def isTd_def
        findFollowupSibling_def cell_column_0 cell_no_device)
next
  case (Some p)
  then show ?thesis
    by (simp add: fetchLanStatistics_row_def statisticsRow_def isTd_def
        findFollowupSibling_def cell_column_0 cell_column_7 cell_column_8 cell_column_other
        split: sum.splits)
qed

lemma ParseInt_not_a_number: "ParseInt ''n/a'' 10 32 = Inl ErrSyntax"
  by (simp add: ParseInt_def ParseUint_def digitVal_def)

lemma ParseInt_4096: "ParseInt ''4096'' 10 32 = Inr 4096"
  by (simp add: ParseInt_decimal isDecimal_def isDigit_def decimalValue_def)

lemma Trim_more_examples [simp]:
  "Trim ''4096'' cutset = ''4096''"
  "Trim ''n/a'' cutset = ''n/a''"
  by (simp_all add: Trim_def cutset_def)

lemma statisticsRows_statisticsPage:
  "statisticsRows (statisticsPage (h # rs)) = followups (rowNodes rs)"
  by (simp add: statisticsRows_def findFollowupSibling_rowNodes)

lemma rowAddress_statisticsRow [simp]:
  "rowAddress (rowNode (statisticsRow mac tx rx) next) = Some (Trim mac cutset)"
  by (simp add: rowAddress_def statisticsRow_def isTd_def)

lemma pass_oneRowPage:
  "snd (fetchLanStatistics spare now (Inr oneRowPage) laptopMemory)
    = assignReceiveBytes spare 0 2048 (appendTransmitBytes spare 0 1024
        (laptopMemory\<lparr>chartData := (chartData laptopMemory)\<lparr>FetchMilliseconds :=
            FetchMilliseconds (chartData laptopMemory) @ [now]\<rparr>\<rparr>))"
  by (simp add: oneRowPage_def fetchLanStatistics_def Let_def findFollowupSibling_def
      row_statisticsRow ParseInt_1024 ParseInt_2048)

lemma pass_repeatedRowPage:
  "snd (fetchLanStatistics spare now (Inr repeatedRowPage) laptopMemory)
    = appendTransmitBytes spare 0 4096 (appendTransmitBytes spare 0 1024
        (laptopMemory\<lparr>chartData := (chartData laptopMemory)\<lparr>FetchMilliseconds :=
            FetchMilliseconds (chartData laptopMemory) @ [now]\<rparr>\<rparr>))"
  by (simp add: repeatedRowPage_def fetchLanStatistics_def Let_def findFollowupSibling_def
      row_statisticsRow ParseInt_1024 ParseInt_4096 ParseInt_not_a_number)

lemma oneRowPerAddress_oneRowPage: "oneRowPerAddress (Inr oneRowPage)"
  by (simp add: oneRowPerAddress_def oneRowPage_def statisticsRows_statisticsPage
      findFollowupSibling_def List.map_filter_simps)

lemma runs_laptopMemory: "runs ok spare laptopMemory"
  using runs.registry [OF runs.start, of ok spare
      "Inr (devicesPage (deviceRows ''AA:BB:CC:DD:EE:FF'' ''laptop''))"]
  by (simp add: registry_pass_laptop)

theorem transmit_series_witness:
  "runs oneRowPerAddress doubling
     (snd (fetchLanStatistics doubling 1700000000000 (Inr oneRowPage) laptopMemory)) \<and>
   0 \<in> set (Devices (chartData
     (snd (fetchLanStatistics doubling 1700000000000 (Inr oneRowPage) laptopMemory)))) \<and>
   length (transmitSeries
     (snd (fetchLanStatistics doubling 1700000000000 (Inr oneRowPage) laptopMemory)) 0)
   \<le> length (FetchMilliseconds (chartData
     (snd (fetchLanStatistics doubling 1700000000000 (Inr oneRowPage) laptopMemory))))"
proof -
  have r: "runs oneRowPerAddress doubling
     (snd (fetchLanStatistics doubling 1700000000000 (Inr oneRowPage) laptopMemory))"
    by (rule runs.statistics [of oneRowPerAddress doubling laptopMemory "Inr oneRowPage",
          OF runs_laptopMemory oneRowPerAddress_oneRowPage])
  have m: "0 \<in> set (Devices (chartData
     (snd (fetchLanStatistics doubling 1700000000000 (Inr oneRowPage) laptopMemory))))"
    by (simp add: chartData_fetchLanStatistics laptopMemory_def)
  show ?thesis
    using transmit_series_never_leads_timestamps [OF r m] r m by simp
qed

lemma repeated_appends:
  "transmitSeries (appendTransmitBytes doubling 0 4096 (appendTransmitBytes doubling 0 1024
      (laptopMemory\<lparr>chartData := c\<rparr>))) 0 = [1024, 4096] \<and>
   receiveSeries (appendTransmitBytes doubling 0 4096 (appendTransmitBytes doubling 0 1024
      (laptopMemory\<lparr>chartData := c\<rparr>))) 0 = []"
  by (simp add: appendTransmitBytes_def append_int64_def doubling_def
      laptopMemory_def emptySlice_def elems_def transmitSeries_def receiveSeries_def Let_def)

text \<open>
  Claim C2, as stated, fails. The registry pass registers the laptop, and one statistics
  pass reads a page whose table lists the laptop in two data rows (\<open>1024\<close> and \<open>4096\<close> in
  column 7, no number in column 8). The pass appends one timestamp and two transmit values:
  the transmit series \<open>[1024, 4096]\<close> is longer than the fetch timestamps.
\<close>

theorem repeated_row_transmit_series_leads_timestamps:
  "runs anyDocument doubling
     (snd (fetchLanStatistics doubling 1700000000000 (Inr repeatedRowPage) laptopMemory)) \<and>
   Devices (chartData
     (snd (fetchLanStatistics doubling 1700000000000 (Inr repeatedRowPage) laptopMemory))) = [0] \<and>
   FetchMilliseconds (chartData
     (snd (fetchLanStatistics doubling 1700000000000 (Inr repeatedRowPage) laptopMemory)))
     = [1700000000000] \<and>
   transmitSeries
     (snd (fetchLanStatistics doubling 1700000000000 (Inr repeatedRowPage) laptopMemory)) 0
     = [1024, 4096] \<and>
   \<not> max (length (transmitSeries
            (snd (fetchLanStatistics doubling 1700000000000 (Inr repeatedRowPage) laptopMemory)) 0))
         (length (receiveSeries
            (snd (fetchLanStatistics doubling 1700000000000 (Inr repeatedRowPage) laptopMemory)) 0))
     \<le> length (FetchMilliseconds (chartData
            (snd (fetchLanStatistics doubling 1700000000000 (Inr repeatedRowPage) laptopMemory))))"
proof -
  have r: "runs anyDocument doubling
     (snd (fetchLanStatistics doubling 1700000000000 (Inr repeatedRowPage) laptopMemory))"
    by (rule runs.statistics [of anyDocument doubling laptopMemory "Inr repeatedRowPage",
          OF runs_laptopMemory]) (simp add: anyDocument_def)
  have c: "chartData
     (snd (fetchLanStatistics doubling 1700000000000 (Inr repeatedRowPage) laptopMemory))
     = \<lparr>macAddressToDevice = [''AA:BB:CC:DD:EE:FF'' \<mapsto> 0], Devices = [0],
        FetchMilliseconds = [1700000000000]\<rparr>"
    by (simp add: chartData_fetchLanStatistics laptopMemory_def)
  have t: "transmitSeries
     (snd (fetchLanStatistics doubling 1700000000000 (Inr repeatedRowPage) laptopMemory)) 0
     = [1024, 4096]"
    and x: "receiveSeries
     (snd (fetchLanStatistics doubling 1700000000000 (Inr repeatedRowPage) laptopMemory)) 0
     = []"
    using repeated_appends by (simp_all add: pass_repeatedRowPage)
  show ?thesis using r by (simp add: c t x)
qed

subsection \<open>The depth-first search\<close>

declare findDescendant_log.simps(1) [simp del]

lemma find_append_cases:
  "find P (xs @ ys) = (case find P xs of None \<Rightarrow> find P ys | Some x \<Rightarrow> Some x)"
  by (induction xs) simp_all

lemma upToFirst_no_match: "find P xs = None \<Longrightarrow> upToFirst P xs = xs"
  by (induction xs) (simp_all split: if_splits)

lemma upToFirst_append:
  "upToFirst P (xs @ ys) =
     (case find P xs of None \<Rightarrow> xs @ upToFirst P ys | Some x \<Rightarrow> upToFirst P xs)"
  by (induction xs) (simp_all split: option.splits)

lemma findDescendant_log_result:
  "fst (findDescendant_log path node c) = findDescendant node c"
  "fst (findDescendant_log_loop path i p c) = findDescendant_loop p c"
proof (induction path node c and path i p c rule: findDescendant_log_findDescendant_log_loop.induct)
  case (1 path node c)
  then show ?case by (simp add: findDescendant.simps(1) findDescendant_log.simps(1))
next
  case (2 path i c)
  show ?case by simp
next
  case (3 path i child c)
  show ?case
  proof (cases "c child")
    case True
    then show ?thesis by simp
  next
    case False
    note nc = this
    have a: "fst (findDescendant_log (path @ [i]) child c) = findDescendant child c"
      using "3.IH"(1) [OF nc] .
    show ?thesis
    proof (cases "findDescendant child c")
      case None
      then have n: "fst (findDescendant_log (path @ [i]) child c) = None"
        by (simp add: a)
      have b: "fst (findDescendant_log_loop path (Suc i) (NextSibling child) c)
          = findDescendant_loop (NextSibling child) c"
        using "3.IH"(2) [OF nc n] .
      show ?thesis
        unfolding findDescendant_log_loop.simps findDescendant_loop.simps
        by (simp only: nc n None b if_False option.case fst_conv)
    next
      case (Some res)
      then have n: "fst (findDescendant_log (path @ [i]) child c) = Some res"
        by (simp add: a)
      show ?thesis
        unfolding findDescendant_log_loop.simps findDescendant_loop.simps
        by (simp only: nc n Some if_False option.case fst_conv)
    qed
  qed
qed

lemma findDescendant_log_preorder:
  "findDescendant_log path node c =
     (map_option snd (find (\<lambda>e. c (snd e)) (preorder path 0 (FirstChild node))),
      upToFirst (\<lambda>e. c (snd e)) (preorder path 0 (FirstChild node)))"
  "findDescendant_log_loop path i p c =
     (map_option snd (find (\<lambda>e. c (snd e)) (preorder path i p)),
      upToFirst (\<lambda>e. c (snd e)) (preorder path i p))"
proof (induction path node c and path i p c rule: findDescendant_log_findDescendant_log_loop.induct)
  case (1 path node c)
  then show ?case by (simp only: findDescendant_log.simps(1))
next
  case (2 path i c)
  show ?case by simp
next
  case (3 path i child c)
  let ?P = "\<lambda>e. c (snd e)"
  let ?A = "preorder (path @ [i]) 0 (FirstChild child)"
  let ?B = "preorder path (Suc i) (NextSibling child)"
  show ?case
  proof (cases "c child")
    case True
    then show ?thesis by simp
  next
    case False
    note nc = this
    have a: "findDescendant_log (path @ [i]) child c
        = (map_option snd (find ?P ?A), upToFirst ?P ?A)"
      using "3.IH"(1) [OF nc] .
    have lhs: "findDescendant_log_loop path i (Some child) c =
        (case fst (findDescendant_log (path @ [i]) child c) of
           Some res \<Rightarrow>
             (Some res, (path @ [i], child) # snd (findDescendant_log (path @ [i]) child c))
         | None \<Rightarrow>
             (fst (findDescendant_log_loop path (Suc i) (NextSibling child) c),
              (path @ [i], child) # snd (findDescendant_log (path @ [i]) child c)
                @ snd (findDescendant_log_loop path (Suc i) (NextSibling child) c)))"
      using nc by (simp only: findDescendant_log_loop.simps if_False)
    have rhs_find: "find ?P (preorder path i (Some child))
        = (case find ?P ?A of None \<Rightarrow> find ?P ?B | Some x \<Rightarrow> Some x)"
      using nc by (simp add: find_append_cases)
    have rhs_up: "upToFirst ?P (preorder path i (Some child))
        = (path @ [i], child)
            # (case find ?P ?A of None \<Rightarrow> ?A @ upToFirst ?P ?B | Some x \<Rightarrow> upToFirst ?P ?A)"
      using nc by (simp add: upToFirst_append)
    show ?thesis
    proof (cases "find ?P ?A")
      case None
      then have n: "fst (findDescendant_log (path @ [i]) child c) = None"
        by (simp add: a)
      have b: "findDescendant_log_loop path (Suc i) (NextSibling child) c
          = (map_option snd (find ?P ?B), upToFirst ?P ?B)"
        using "3.IH"(2) [OF nc n] .
      have u: "upToFirst ?P ?A = ?A"
        using None by (rule upToFirst_no_match)
      show ?thesis
        unfolding lhs rhs_find rhs_up
        by (simp only: a b u None option.case fst_conv snd_conv option.map)
    next
      case (Some e)
      show ?thesis
        unfolding lhs rhs_find rhs_up
        by (simp only: a Some option.case fst_conv snd_conv option.map)
    qed
  qed
qed


lemma preorder_positions:
  "(q, n) \<in> set (preorder path i p) \<Longrightarrow>
   \<exists>k rest. q = path @ (i + k) # rest \<and>
     (case nthSibling k p of None \<Rightarrow> None | Some ch \<Rightarrow> nodeAt ch rest) = Some n"
proof (induction path i p arbitrary: q n rule: preorder.induct)
  case (1 path i)
  then show ?case by simp
next
  case (2 path i child)
  from "2.prems" consider
      (head) "q = path @ [i]" "n = child"
    | (below) "(q, n) \<in> set (preorder (path @ [i]) 0 (FirstChild child))"
    | (after) "(q, n) \<in> set (preorder path (Suc i) (NextSibling child))"
    by auto
  then show ?case
  proof cases
    case head
    have "q = path @ (i + 0) # [] \<and>
       (case nthSibling 0 (Some child) of None \<Rightarrow> None | Some ch \<Rightarrow> nodeAt ch []) = Some n"
      using head by simp
    then show ?thesis by blast
  next
    case below
    from "2.IH"(1) [OF below] obtain k rest where
      q: "q = (path @ [i]) @ (0 + k) # rest" and
      a: "(case nthSibling k (FirstChild child) of None \<Rightarrow> None
           | Some ch \<Rightarrow> nodeAt ch rest) = Some n"
      by blast
    have "q = path @ (i + 0) # (k # rest) \<and>
       (case nthSibling 0 (Some child) of None \<Rightarrow> None
        | Some ch \<Rightarrow> nodeAt ch (k # rest)) = Some n"
      using q a by simp
    then show ?thesis by blast
  next
    case after
    from "2.IH"(2) [OF after] obtain k rest where
      q: "q = path @ (Suc i + k) # rest" and
      a: "(case nthSibling k (NextSibling child) of None \<Rightarrow> None
           | Some ch \<Rightarrow> nodeAt ch rest) = Some n"
      by blast
    have "q = path @ (i + Suc k) # rest \<and>
       (case nthSibling (Suc k) (Some child) of None \<Rightarrow> None
        | Some ch \<Rightarrow> nodeAt ch rest) = Some n"
      using q a by simp
    then show ?thesis by blast
  qed
qed

lemma preorder_shape:
  "e \<in> set (preorder path i p) \<Longrightarrow> \<exists>k rest. fst e = path @ (i + k) # rest"
  using preorder_positions [of "fst e" "snd e" path i p] by auto

lemma distinct_preorder: "distinct (map fst (preorder path i p))"
proof (induction path i p rule: preorder.induct)
  case (1 path i)
  show ?case by simp
next
  case (2 path i child)
  let ?A = "preorder (path @ [i]) 0 (FirstChild child)"
  let ?B = "preorder path (Suc i) (NextSibling child)"
  have hA: "path @ [i] \<notin> fst ` set ?A"
  proof
    assume "path @ [i] \<in> fst ` set ?A"
    then obtain e where "e \<in> set ?A" and "fst e = path @ [i]" by auto
    with preorder_shape [of e "path @ [i]" 0 "FirstChild child"] show False by auto
  qed
  have hB: "path @ [i] \<notin> fst ` set ?B"
  proof
    assume "path @ [i] \<in> fst ` set ?B"
    then obtain e where "e \<in> set ?B" and "fst e = path @ [i]" by auto
    with preorder_shape [of e path "Suc i" "NextSibling child"] show False by auto
  qed
  have AB: "fst ` set ?A \<inter> fst ` set ?B = {}"
  proof (rule ccontr)
    assume "fst ` set ?A \<inter> fst ` set ?B \<noteq> {}"
    then obtain a b where a: "a \<in> set ?A" and b: "b \<in> set ?B" and ab: "fst a = fst b"
      by auto
    from preorder_shape [OF a] obtain k rest where "fst a = (path @ [i]) @ (0 + k) # rest"
      by blast
    moreover from preorder_shape [OF b] obtain k' rest' where
      "fst b = path @ (Suc i + k') # rest'" by blast
    ultimately show False using ab by simp
  qed
  show ?case
    using "2.IH" hA hB AB by simp
qed

lemma set_upToFirst: "set (upToFirst P xs) \<subseteq> set xs"
  by (induction xs) auto

lemma find_in_set: "find P xs = Some x \<Longrightarrow> x \<in> set xs"
  by (induction xs) (auto split: if_splits)

lemma search_stays_out_of_match:
  "find P (preorder path i p) = Some m \<Longrightarrow>
   e \<in> set (upToFirst P (preorder path i p)) \<Longrightarrow>
   \<not> strict_prefix (fst m) (fst e)"
proof (induction path i p arbitrary: m e rule: preorder.induct)
  case (1 path i)
  then show ?case by simp
next
  case (2 path i child)
  let ?e0 = "(path @ [i], child)"
  let ?A = "preorder (path @ [i]) 0 (FirstChild child)"
  let ?B = "preorder path (Suc i) (NextSibling child)"
  show ?case
  proof (cases "P ?e0")
    case True
    with "2.prems" show ?thesis by simp
  next
    case False
    note np = this
    show ?thesis
    proof (cases "find P ?A")
      case (Some x)
      with "2.prems"(1) np have mx: "find P ?A = Some m"
        by (simp add: find_append_cases)
      from find_in_set [OF mx] preorder_shape [of m "path @ [i]" 0 "FirstChild child"]
      obtain k rest where m: "fst m = path @ i # k # rest" by auto
      from "2.prems"(2) np mx have "e = ?e0 \<or> e \<in> set (upToFirst P ?A)"
        by (simp add: upToFirst_append)
      then show ?thesis
      proof
        assume "e = ?e0"
        then show ?thesis using m by (simp add: strict_prefix_def)
      next
        assume "e \<in> set (upToFirst P ?A)"
        then show ?thesis using "2.IH"(1) [OF mx] by simp
      qed
    next
      case None
      with "2.prems"(1) np have mx: "find P ?B = Some m"
        by (simp add: find_append_cases)
      from find_in_set [OF mx] preorder_shape [of m path "Suc i" "NextSibling child"]
      obtain k rest where m: "fst m = path @ (Suc i + k) # rest" by auto
      from "2.prems"(2) np None have
        "e = ?e0 \<or> e \<in> set ?A \<or> e \<in> set (upToFirst P ?B)"
        by (auto simp: upToFirst_append)
      then consider (head) "e = ?e0" | (below) "e \<in> set ?A"
        | (after) "e \<in> set (upToFirst P ?B)" by blast
      then show ?thesis
      proof cases
        case head
        then show ?thesis using m by (simp add: strict_prefix_def)
      next
        case below
        from preorder_shape [OF below] obtain k' rest' where
          "fst e = (path @ [i]) @ (0 + k') # rest'" by blast
        then show ?thesis using m by (simp add: strict_prefix_def)
      next
        case after
        then show ?thesis using "2.IH"(2) [OF mx] by simp
      qed
    qed
  qed
qed


lemma positions_preorder:
  "(case nthSibling k p of None \<Rightarrow> None | Some ch \<Rightarrow> nodeAt ch rest) = Some n \<Longrightarrow>
   (path @ (i + k) # rest, n) \<in> set (preorder path i p)"
proof (induction path i p arbitrary: k rest rule: preorder.induct)
  case (1 path i)
  then show ?case by simp
next
  case (2 path i child)
  show ?case
  proof (cases k)
    case 0
    show ?thesis
    proof (cases rest)
      case Nil
      with 0 "2.prems" show ?thesis by simp
    next
      case (Cons k' rest')
      with 0 "2.prems" have
        "(case nthSibling k' (FirstChild child) of None \<Rightarrow> None
          | Some ch \<Rightarrow> nodeAt ch rest') = Some n"
        by simp
      from "2.IH"(1) [OF this] have
        "((path @ [i]) @ (0 + k') # rest', n) \<in> set (preorder (path @ [i]) 0 (FirstChild child))" .
      with 0 Cons show ?thesis by simp
    qed
  next
    case (Suc k')
    with "2.prems" have
      "(case nthSibling k' (NextSibling child) of None \<Rightarrow> None
        | Some ch \<Rightarrow> nodeAt ch rest) = Some n"
      by simp
    from "2.IH"(2) [OF this] have
      "(path @ (Suc i + k') # rest, n) \<in> set (preorder path (Suc i) (NextSibling child))" .
    with Suc show ?thesis by simp
  qed
qed

lemma set_descendants:
  "set (descendants node) = {(q, n). q \<noteq> [] \<and> nodeAt node q = Some n}"
proof (rule set_eqI)
  fix e :: "nat list \<times> Node"
  obtain q n where e: "e = (q, n)" by (cases e)
  show "e \<in> set (descendants node) \<longleftrightarrow> e \<in> {(q, n). q \<noteq> [] \<and> nodeAt node q = Some n}"
  proof
    assume "e \<in> set (descendants node)"
    then have "(q, n) \<in> set (preorder [] 0 (FirstChild node))"
      by (simp add: e descendants_def)
    from preorder_positions [OF this] show "e \<in> {(q, n). q \<noteq> [] \<and> nodeAt node q = Some n}"
      by (auto simp: e)
  next
    assume "e \<in> {(q, n). q \<noteq> [] \<and> nodeAt node q = Some n}"
    then obtain k rest where q: "q = k # rest" and a: "nodeAt node (k # rest) = Some n"
      by (cases q) (auto simp: e)
    from a have "(case nthSibling k (FirstChild node) of None \<Rightarrow> None
        | Some ch \<Rightarrow> nodeAt ch rest) = Some n"
      by simp
    from positions_preorder [OF this, of "[]" 0] show "e \<in> set (descendants node)"
      by (simp add: e q descendants_def)
  qed
qed

lemma distinct_upToFirst:
  "distinct (map f xs) \<Longrightarrow> distinct (map f (upToFirst P xs))"
proof (induction xs)
  case Nil
  show ?case by simp
next
  case (Cons x xs)
  then show ?case
    using set_upToFirst [of P xs] by auto
qed

text \<open>
  Claim C8. For every node and every condition, \<^verbatim>\<open>findDescendant\<close> returns the first
  proper descendant, in depth-first pre-order, that satisfies the condition, and \<^verbatim>\<open>nil\<close>
  when there is none. It calls the condition on the descendants in that order, on each
  child before it looks below it, up to and including the match, and on nothing else. The
  positions it visits are pairwise different, so it visits no node twice; and none of them
  lies below the position of the match, so it does not go into the matched node's subtree.
  (The descendants listed are exactly the nodes at the non-empty positions of the tree,
  each once.)
\<close>

theorem findDescendant_first_match_in_preorder:
  "findDescendant node c = map_option snd (find (\<lambda>e. c (snd e)) (descendants node)) \<and>
   findDescendant_log [] node c
     = (findDescendant node c, upToFirst (\<lambda>e. c (snd e)) (descendants node)) \<and>
   set (descendants node) = {(q, n). q \<noteq> [] \<and> nodeAt node q = Some n} \<and>
   distinct (map fst (descendants node)) \<and>
   distinct (map fst (snd (findDescendant_log [] node c))) \<and>
   (\<forall>m e. find (\<lambda>e. c (snd e)) (descendants node) = Some m \<longrightarrow>
      e \<in> set (snd (findDescendant_log [] node c)) \<longrightarrow>
      \<not> strict_prefix (fst m) (fst e))"
proof -
  let ?P = "\<lambda>e. c (snd e)"
  have l: "findDescendant_log [] node c
      = (map_option snd (find ?P (descendants node)), upToFirst ?P (descendants node))"
    by (simp add: findDescendant_log_preorder(1) descendants_def)
  have r: "findDescendant node c = map_option snd (find ?P (descendants node))"
    using findDescendant_log_result(1) [of "[]" node c] by (simp add: l)
  have d: "distinct (map fst (descendants node))"
    by (simp add: descendants_def distinct_preorder)
  have d': "distinct (map fst (snd (findDescendant_log [] node c)))"
    using d by (simp add: l distinct_upToFirst)
  have s: "\<forall>m e. find ?P (descendants node) = Some m \<longrightarrow>
      e \<in> set (snd (findDescendant_log [] node c)) \<longrightarrow>
      \<not> strict_prefix (fst m) (fst e)"
    using search_stays_out_of_match [of ?P "[]" 0 "FirstChild node"]
    by (simp add: l descendants_def)
  show ?thesis
    using l r d d' s set_descendants [of node] by simp
qed

lemma descendants_example:
  "descendants (rowNode [(Th, ''x''), (Td, ''y'')] None) =
     [([0], cellNode (Th, ''x'') (Some (cellNode (Td, ''y'') None))),
      ([0, 0], Node TextNode (OtherAtom 0) ''x'' [] None None),
      ([1], cellNode (Td, ''y'') None),
      ([1, 0], Node TextNode (OtherAtom 0) ''y'' [] None None)]"
  by (simp add: descendants_def rowNode_def cellNode_def)

theorem findDescendant_first_match_witness:
  "findDescendant (rowNode [(Th, ''x''), (Td, ''y'')] None) isTd
     = Some (cellNode (Td, ''y'') None) \<and>
   map fst (snd (findDescendant_log [] (rowNode [(Th, ''x''), (Td, ''y'')] None) isTd))
     = [[0], [0, 0], [1]] \<and>
   map fst (descendants (rowNode [(Th, ''x''), (Td, ''y'')] None))
     = [[0], [0, 0], [1], [1, 0]] \<and>
   \<not> strict_prefix [1] [0, 0 :: nat]"
proof -
  have t: "isTd (cellNode (Td, ''y'') None)"
    "\<not> isTd (cellNode (Th, ''x'') (Some (cellNode (Td, ''y'') None)))"
    "\<not> isTd (Node TextNode (OtherAtom 0) ''x'' [] None None)"
    by (simp_all add: isTd_def)
  show ?thesis
    using findDescendant_first_match_in_preorder
      [of "rowNode [(Th, ''x''), (Td, ''y'')] None" isTd]
    by (simp add: descendants_example t)
qed

subsection \<open>The registry pass on registered and on listed addresses\<close>

lemma fetchDevices_loop_wellFormed:
  "wellFormedRows (followups tr) \<Longrightarrow>
   fetchDevices_loop tr s = (None, registerAll (listedPairs (followups tr)) s)"
proof (induction tr s rule: fetchDevices_loop.induct)
  case (1 s)
  show ?case by simp
next
  case (2 tr s)
  let ?next = "findFollowupSibling tr"
  show ?case
  proof (cases "isAddressRow tr")
    case False
    then have wf: "wellFormedRows (followups ?next)" using "2.prems" by simp
    have lp: "listedPairs (followups (Some tr)) = listedPairs (followups ?next)"
      using False by simp
    show ?thesis
    proof (cases "findDescendant tr isMacAddressTh")
      case None
      then show ?thesis using "2.IH"(1) [OF None wf] lp by simp
    next
      case (Some th)
      with False have td: "findDescendant tr isTd = None" by (simp add: isAddressRow_def)
      show ?thesis using "2.IH"(2) [OF Some td wf] lp Some td by simp
    qed
  next
    case True
    then obtain th td where th: "findDescendant tr isMacAddressTh = Some th"
      and td: "findDescendant tr isTd = Some td"
      by (auto simp: isAddressRow_def)
    have ra: "rowAddress tr = Some (Trim (getInnerText td) cutset)"
      using td by (simp add: rowAddress_def)
    from True "2.prems" obtain n rest where
      fl: "followups ?next = n # rest" and
      ntd: "findDescendant n isTd \<noteq> None" and
      nad: "\<not> isAddressRow n" and
      wfr: "wellFormedRows rest"
      by (auto split: list.splits)
    from fl have nx: "?next = Some n" and rest: "rest = followups (findFollowupSibling n)"
      by (cases ?next; simp)+
    from ntd obtain td2 where td2: "findDescendant n isTd = Some td2" by auto
    have lp: "listedPairs (followups (Some tr))
        = (Trim (getInnerText td) cutset, rowName n) # listedPairs rest"
      using True fl ra by simp
    show ?thesis
    proof (cases "macAddressToDevice (chartData s) (Trim (getInnerText td) cutset)")
      case (Some p)
      have wfn: "wellFormedRows (followups ?next)"
        using fl nad wfr by simp
      have lpn: "listedPairs (followups ?next) = listedPairs rest"
        using fl nad by simp
      have "fetchDevices_loop ?next s = (None, registerAll (listedPairs (followups ?next)) s)"
        using "2.IH"(3) [OF th td _ wfn] Some by simp
      then show ?thesis
        using th td Some lp lpn by simp
    next
      case None
      have wfr': "wellFormedRows (followups (findFollowupSibling n))"
        using wfr rest by simp
      have "fetchDevices_loop (findFollowupSibling n)
              (fetchDevices_insert (Trim (getInnerText td) cutset)
                 (ReplaceAll (Trim (getInnerText td2) cutset) [CHR 0x0A] []) s)
          = (None, registerAll (listedPairs (followups (findFollowupSibling n)))
              (fetchDevices_insert (Trim (getInnerText td) cutset)
                 (ReplaceAll (Trim (getInnerText td2) cutset) [CHR 0x0A] []) s))"
        using "2.IH"(5) [OF th td _ nx td2 wfr'] None by simp
      then show ?thesis
        using th td None nx td2 lp rest by (simp add: rowName_def)
    qed
  qed
qed

lemma keeps_refl: "keeps s s"
  by (simp add: keeps_def)

lemma keeps_insert:
  assumes "keeps s0 s" and "macAddressToDevice (chartData s) mac = None"
  shows "keeps s0 (fetchDevices_insert mac name s)"
proof -
  have "macAddressToDevice (chartData s0) \<subseteq>\<^sub>m (macAddressToDevice (chartData s))(mac \<mapsto> x)" for x
  proof -
    have "macAddressToDevice (chartData s) \<subseteq>\<^sub>m (macAddressToDevice (chartData s))(mac \<mapsto> x)"
      using assms(2) by (auto simp: map_le_def)
    with assms(1) show ?thesis by (auto simp: keeps_def intro: map_le_trans)
  qed
  moreover have "prefix (deviceObjects s0) (deviceObjects s @ x)" for x
    using assms(1) by (simp add: keeps_def prefix_prefix)
  moreover have "prefix (Devices (chartData s0)) (Devices (chartData s) @ y)" for y
    using assms(1) by (simp add: keeps_def prefix_prefix)
  ultimately show ?thesis
    using assms(1) by (simp add: keeps_def fetchDevices_insert_def Let_def)
qed

lemma keeps_fetchDevices: "keeps s (snd (fetchDevices fetched s))"
  by (simp add: fetchDevices_def keeps_refl keeps_insert
      fetchDevices_loop_invariant [where P = "keeps s"] split: sum.splits option.splits)

lemma keeps_lookup:
  "keeps s s' \<Longrightarrow> macAddressToDevice (chartData s) mac = Some p \<Longrightarrow>
   macAddressToDevice (chartData s') mac = Some p"
  by (auto simp: keeps_def map_le_def dom_def)

lemma keeps_object:
  "keeps s s' \<Longrightarrow> p < length (deviceObjects s) \<Longrightarrow>
   deviceObjects s' ! p = deviceObjects s ! p \<and>
   transmitSeries s' p = transmitSeries s p \<and> receiveSeries s' p = receiveSeries s p"
  by (auto simp: keeps_def prefix_def transmitSeries_def receiveSeries_def nth_append)

lemma dom_registerAll:
  "dom (macAddressToDevice (chartData (registerAll ps s)))
     = dom (macAddressToDevice (chartData s)) \<union> fst ` set ps"
proof (induction ps s rule: registerAll.induct)
  case (1 s)
  show ?case by simp
next
  case (2 p ps s)
  show ?case
  proof (cases "macAddressToDevice (chartData s) (fst p)")
    case None
    then show ?thesis
      using "2.IH"(2) by (auto simp: fetchDevices_insert_def Let_def)
  next
    case (Some q)
    then show ?thesis using "2.IH"(1) by auto
  qed
qed

lemma viewsAgree_registerAll: "viewsAgree s \<Longrightarrow> viewsAgree (registerAll ps s)"
  by (induction ps s rule: registerAll.induct) (auto simp: viewsAgree_insert)

lemma registerAll_known:
  "fst ` set ps \<subseteq> dom (macAddressToDevice (chartData s)) \<Longrightarrow> registerAll ps s = s"
  by (induction ps s rule: registerAll.induct) auto

lemma registerAll_twice: "registerAll ps (registerAll ps s) = registerAll ps s"
  by (rule registerAll_known) (simp add: dom_registerAll)

lemma viewsAgree_count:
  assumes "viewsAgree s"
  shows "length (Devices (chartData s)) = card (dom (macAddressToDevice (chartData s)))"
proof -
  let ?m = "macAddressToDevice (chartData s)"
  from assms have r: "ran ?m = {0 ..< length (deviceObjects s)}"
    and i: "inj_on ?m (dom ?m)" and d: "Devices (chartData s) = [0 ..< length (deviceObjects s)]"
    by (simp_all add: viewsAgree_def)
  have img: "?m ` dom ?m = Some ` ran ?m"
  proof (rule set_eqI)
    fix v
    show "v \<in> ?m ` dom ?m \<longleftrightarrow> v \<in> Some ` ran ?m"
    proof
      assume "v \<in> ?m ` dom ?m"
      then obtain a y where "?m a = Some y" and "v = ?m a" by auto
      then show "v \<in> Some ` ran ?m" by (auto intro: ranI)
    next
      assume "v \<in> Some ` ran ?m"
      then obtain y where "y \<in> ran ?m" and v: "v = Some y" by auto
      then obtain a where "?m a = Some y" by (auto simp: ran_def)
      then show "v \<in> ?m ` dom ?m" using v by (auto simp: image_iff dom_def intro!: bexI [where x = a])
    qed
  qed
  have "card (dom ?m) = card (?m ` dom ?m)" using i by (simp add: card_image)
  also have "\<dots> = card (Some ` ran ?m)" by (simp add: img)
  also have "\<dots> = card (ran ?m)" by (simp add: card_image)
  finally show ?thesis using r d by simp
qed

text \<open>
  Claim C5. First part: a registry pass, on any fetch result and from any memory, is a
  no-op for the addresses that are registered when it starts. Such an address points to
  the same object afterwards, and the object, name and both series, is unchanged.

  Second part: from a memory the program can reach, a pass over a document with a
  well-formed registry table returns no error; afterwards the registered addresses are
  those registered before and those the table lists, different addresses have different
  objects, the objects of the map are those of the list, each once, and there are as many
  as registered addresses: one record per address, however often the table lists it. A
  second pass over the same document changes nothing at all.
\<close>

theorem registry_pass_keeps_registered_and_registers_once:
  "(macAddressToDevice (chartData s) mac = Some p \<longrightarrow>
      macAddressToDevice (chartData (snd (fetchDevices fetched s))) mac = Some p \<and>
      (p < length (deviceObjects s) \<longrightarrow>
         deviceObjects (snd (fetchDevices fetched s)) ! p = deviceObjects s ! p \<and>
         transmitSeries (snd (fetchDevices fetched s)) p = transmitSeries s p \<and>
         receiveSeries (snd (fetchDevices fetched s)) p = receiveSeries s p)) \<and>
   (runs ok spare s \<longrightarrow> wellFormedRows (registryRows doc) \<longrightarrow>
      fst (fetchDevices (Inr doc) s) = None \<and>
      dom (macAddressToDevice (chartData (snd (fetchDevices (Inr doc) s))))
        = dom (macAddressToDevice (chartData s)) \<union> fst ` set (listedPairs (registryRows doc)) \<and>
      inj_on (macAddressToDevice (chartData (snd (fetchDevices (Inr doc) s))))
        (dom (macAddressToDevice (chartData (snd (fetchDevices (Inr doc) s))))) \<and>
      ran (macAddressToDevice (chartData (snd (fetchDevices (Inr doc) s))))
        = set (Devices (chartData (snd (fetchDevices (Inr doc) s)))) \<and>
      distinct (Devices (chartData (snd (fetchDevices (Inr doc) s)))) \<and>
      length (Devices (chartData (snd (fetchDevices (Inr doc) s))))
        = card (dom (macAddressToDevice (chartData (snd (fetchDevices (Inr doc) s))))) \<and>
      fetchDevices (Inr doc) (snd (fetchDevices (Inr doc) s))
        = (None, snd (fetchDevices (Inr doc) s)))"
proof -
  have k: "keeps s (snd (fetchDevices fetched s))" by (rule keeps_fetchDevices)
  have a: "macAddressToDevice (chartData s) mac = Some p \<longrightarrow>
      macAddressToDevice (chartData (snd (fetchDevices fetched s))) mac = Some p \<and>
      (p < length (deviceObjects s) \<longrightarrow>
         deviceObjects (snd (fetchDevices fetched s)) ! p = deviceObjects s ! p \<and>
         transmitSeries (snd (fetchDevices fetched s)) p = transmitSeries s p \<and>
         receiveSeries (snd (fetchDevices fetched s)) p = receiveSeries s p)"
    using keeps_lookup [OF k, of mac p] keeps_object [OF k, of p] by blast
  have b: "fst (fetchDevices (Inr doc) s) = None \<and>
      dom (macAddressToDevice (chartData (snd (fetchDevices (Inr doc) s))))
        = dom (macAddressToDevice (chartData s)) \<union> fst ` set (listedPairs (registryRows doc)) \<and>
      inj_on (macAddressToDevice (chartData (snd (fetchDevices (Inr doc) s))))
        (dom (macAddressToDevice (chartData (snd (fetchDevices (Inr doc) s))))) \<and>
      ran (macAddressToDevice (chartData (snd (fetchDevices (Inr doc) s))))
        = set (Devices (chartData (snd (fetchDevices (Inr doc) s)))) \<and>
      distinct (Devices (chartData (snd (fetchDevices (Inr doc) s)))) \<and>
      length (Devices (chartData (snd (fetchDevices (Inr doc) s))))
        = card (dom (macAddressToDevice (chartData (snd (fetchDevices (Inr doc) s))))) \<and>
      fetchDevices (Inr doc) (snd (fetchDevices (Inr doc) s))
        = (None, snd (fetchDevices (Inr doc) s))"
    if r: "runs ok spare s" and wf: "wellFormedRows (registryRows doc)"
  proof -
    have v: "viewsAgree s" using r by (rule runs_viewsAgree)
    have e: "fetchDevices (Inr doc) t = (None, registerAll (listedPairs (registryRows doc)) t)"
      for t
    proof (cases "findDescendant doc isDeviceTable")
      case None
      then show ?thesis by (simp add: fetchDevices_def registryRows_def)
    next
      case (Some table)
      with wf have "wellFormedRows (followups (findDescendant table isTr))"
        by (simp add: registryRows_def)
      from fetchDevices_loop_wellFormed [OF this, of t] Some show ?thesis
        by (simp add: fetchDevices_def registryRows_def)
    qed
    let ?s' = "registerAll (listedPairs (registryRows doc)) s"
    have v': "viewsAgree ?s'" using v by (rule viewsAgree_registerAll)
    have c: "length (Devices (chartData ?s')) = card (dom (macAddressToDevice (chartData ?s')))"
      using v' by (rule viewsAgree_count)
    show ?thesis
      using v' c
      by (simp add: e dom_registerAll registerAll_twice viewsAgree_def)
  qed
  from a b show ?thesis by blast
qed

lemma wellFormed_repeatedListingPage: "wellFormedRows (registryRows repeatedListingPage)"
  by (simp add: repeatedListingPage_def registryRows_def deviceRows_def findFollowupSibling_def
      isAddressRow_def isTd_def isMacAddressTh_def)

lemma registry_pass_repeatedListingPage:
  "fetchDevices (Inr repeatedListingPage) laptopMemory =
     (None,
      \<lparr>chartData =
         \<lparr>macAddressToDevice = [''AA:BB:CC:DD:EE:FF'' \<mapsto> 0, ''11:22:33:44:55:66'' \<mapsto> 1],
          Devices = [0, 1], FetchMilliseconds = []\<rparr>,
       deviceObjects =
         [\<lparr>DeviceName = ''laptop'', TransmitBytes = emptySlice, ReceiveBytes = emptySlice\<rparr>,
          \<lparr>DeviceName = ''phone'', TransmitBytes = emptySlice, ReceiveBytes = emptySlice\<rparr>],
       arrays = [[]]\<rparr>)"
  by (simp add: repeatedListingPage_def fetchDevices_def deviceRows_def Trim_def cutset_def
      fetchDevices_insert_def laptopMemory_def findFollowupSibling_def isTd_def
      isMacAddressTh_def)

theorem registry_pass_witness:
  "macAddressToDevice (chartData laptopMemory) ''AA:BB:CC:DD:EE:FF'' = Some 0 \<and>
   runs anyDocument doubling laptopMemory \<and>
   wellFormedRows (registryRows repeatedListingPage) \<and>
   macAddressToDevice (chartData (snd (fetchDevices (Inr repeatedListingPage) laptopMemory)))
     ''AA:BB:CC:DD:EE:FF'' = Some 0 \<and>
   DeviceName (deviceObjects (snd (fetchDevices (Inr repeatedListingPage) laptopMemory)) ! 0)
     = ''laptop'' \<and>
   Devices (chartData (snd (fetchDevices (Inr repeatedListingPage) laptopMemory))) = [0, 1] \<and>
   card (dom (macAddressToDevice
           (chartData (snd (fetchDevices (Inr repeatedListingPage) laptopMemory))))) = 2 \<and>
   fetchDevices (Inr repeatedListingPage)
       (snd (fetchDevices (Inr repeatedListingPage) laptopMemory))
     = (None, snd (fetchDevices (Inr repeatedListingPage) laptopMemory))"
proof -
  have m: "macAddressToDevice (chartData laptopMemory) ''AA:BB:CC:DD:EE:FF'' = Some 0"
    by (simp add: laptopMemory_def)
  have l: "0 < length (deviceObjects laptopMemory)"
    "DeviceName (deviceObjects laptopMemory ! 0) = ''laptop''"
    by (simp_all add: laptopMemory_def)
  have d: "Devices (chartData (snd (fetchDevices (Inr repeatedListingPage) laptopMemory)))
      = [0, 1]"
    by (simp add: registry_pass_repeatedListingPage)
  have r: "runs anyDocument doubling laptopMemory" by (rule runs_laptopMemory)
  note t = registry_pass_keeps_registered_and_registers_once
      [of laptopMemory "''AA:BB:CC:DD:EE:FF''" 0 "Inr repeatedListingPage"
          anyDocument doubling repeatedListingPage]
  from t m l have c1:
    "macAddressToDevice (chartData (snd (fetchDevices (Inr repeatedListingPage) laptopMemory)))
       ''AA:BB:CC:DD:EE:FF'' = Some 0"
    "deviceObjects (snd (fetchDevices (Inr repeatedListingPage) laptopMemory)) ! 0
       = deviceObjects laptopMemory ! 0"
    by blast+
  from t r wellFormed_repeatedListingPage have c2:
    "length (Devices (chartData (snd (fetchDevices (Inr repeatedListingPage) laptopMemory))))
       = card (dom (macAddressToDevice
           (chartData (snd (fetchDevices (Inr repeatedListingPage) laptopMemory)))))"
    "fetchDevices (Inr repeatedListingPage)
       (snd (fetchDevices (Inr repeatedListingPage) laptopMemory))
     = (None, snd (fetchDevices (Inr repeatedListingPage) laptopMemory))"
    by blast+
  show ?thesis
    using m r wellFormed_repeatedListingPage c1 c2 l d by simp
qed

subsection \<open>The snapshot\<close>

declare decimal.simps [simp del]

lemma marshalDevicePointer_view:
  assumes "(if p < length (deviceObjects s)
            then Some (DeviceName (deviceObjects s ! p), transmitSeries s p, receiveSeries s p)
            else None)
         = (if p' < length (deviceObjects s')
            then Some (DeviceName (deviceObjects s' ! p'), transmitSeries s' p',
                       receiveSeries s' p')
            else None)"
  shows "marshalDevicePointer quote s p = marshalDevicePointer quote s' p'"
  using assms
  by (auto simp: marshalDevicePointer_def marshalDeviceData_def marshalInt64Slice_def
      transmitSeries_def receiveSeries_def split: if_splits)

lemma json_Marshal_view:
  assumes "snapshotView s = snapshotView s'"
  shows "json_Marshal quote s = json_Marshal quote s'"
proof -
  let ?f = "\<lambda>s p. if p < length (deviceObjects s)
                then Some (DeviceName (deviceObjects s ! p), transmitSeries s p, receiveSeries s p)
                else None"
  from assms have m: "map (?f s) (Devices (chartData s)) = map (?f s') (Devices (chartData s'))"
    and t: "FetchMilliseconds (chartData s) = FetchMilliseconds (chartData s')"
    by (simp_all add: snapshotView_def)
  have "map (marshalDevicePointer quote s) (Devices (chartData s))
      = map (marshalDevicePointer quote s') (Devices (chartData s'))"
  proof (rule nth_equalityI)
    show "length (map (marshalDevicePointer quote s) (Devices (chartData s)))
        = length (map (marshalDevicePointer quote s') (Devices (chartData s')))"
      using arg_cong [OF m, of length] by simp
  next
    fix i
    assume i: "i < length (map (marshalDevicePointer quote s) (Devices (chartData s)))"
    then have i': "i < length (Devices (chartData s'))"
      using arg_cong [OF m, of length] by simp
    have "map (?f s) (Devices (chartData s)) ! i = map (?f s') (Devices (chartData s')) ! i"
      by (simp only: m)
    then have "?f s (Devices (chartData s) ! i) = ?f s' (Devices (chartData s') ! i)"
      using i i' by simp
    then have "marshalDevicePointer quote s (Devices (chartData s) ! i)
        = marshalDevicePointer quote s' (Devices (chartData s') ! i)"
      by (rule marshalDevicePointer_view)
    then show "map (marshalDevicePointer quote s) (Devices (chartData s)) ! i
        = map (marshalDevicePointer quote s') (Devices (chartData s')) ! i"
      using i i' by simp
  qed
  then show ?thesis by (simp add: json_Marshal_def t)
qed

text \<open>
  Claim C9. The handler leaves the memory as it was, so a second snapshot with no pass in
  between returns the same status and the same bytes as the first. The bytes are a
  function of what the snapshot shows: two memories in which the device list shows the
  same names and series and which hold the same timestamps give the same bytes, whatever
  their map, their spare capacities and the places of their arrays.
\<close>

theorem snapshot_twice_same_bytes:
  "snd (dataHandler quote s) = s \<and>
   fst (dataHandler quote (snd (dataHandler quote s))) = fst (dataHandler quote s) \<and>
   (snapshotView s = snapshotView s' \<longrightarrow> fst (dataHandler quote s) = fst (dataHandler quote s'))"
  using json_Marshal_view [of s s' quote] by (simp add: dataHandler_def)

lemma DeviceName_appendTransmitBytes [simp]:
  "DeviceName (deviceObjects (appendTransmitBytes spare p b s) ! q)
     = DeviceName (deviceObjects s ! q)"
  by (simp add: appendTransmitBytes_def Let_def nth_list_update)

lemma DeviceName_assignReceiveBytes [simp]:
  "DeviceName (deviceObjects (assignReceiveBytes spare p b s) ! q)
     = DeviceName (deviceObjects s ! q)"
  by (simp add: assignReceiveBytes_def Let_def nth_list_update)

lemma snapshotView_oneRowPage:
  "snapshotView (snd (fetchLanStatistics spare now (Inr oneRowPage) laptopMemory))
     = ([Some (''laptop'', [1024], [1024, 2048])], [now])"
proof -
  let ?s = "snd (fetchLanStatistics spare now (Inr oneRowPage) laptopMemory)"
  have dv: "Devices (chartData ?s) = [0]" and ts: "FetchMilliseconds (chartData ?s) = [now]"
    by (simp_all add: chartData_fetchLanStatistics laptopMemory_def)
  have n: "length (deviceObjects laptopMemory) = 1"
    by (simp add: laptopMemory_def)
  have "DeviceName (deviceObjects ?s ! 0) = DeviceName (deviceObjects laptopMemory ! 0)"
    by (simp add: pass_oneRowPage)
  then have d: "DeviceName (deviceObjects ?s ! 0) = ''laptop''"
    by (simp add: laptopMemory_def)
  have t: "transmitSeries ?s 0 = [1024]" and r: "receiveSeries ?s 0 = [1024, 2048]"
    using laptop_appends [of spare] by (simp_all add: pass_oneRowPage)
  show ?thesis
    by (simp add: snapshotView_def dv ts n d t r)
qed

lemma arrays_oneRowPage_doubling:
  "arrays (snd (fetchLanStatistics doubling now (Inr oneRowPage) laptopMemory))
     = [[], [1024], [1024, 2048]]"
  by (simp only: pass_oneRowPage)
     (simp add: appendTransmitBytes_def assignReceiveBytes_def append_int64_def
      doubling_def laptopMemory_def emptySlice_def elems_def Let_def)

lemma arrays_oneRowPage_roomy:
  "arrays (snd (fetchLanStatistics roomy now (Inr oneRowPage) laptopMemory))
     = [[], [1024, 2048, 0, 0, 0]]"
  by (simp only: pass_oneRowPage)
     (simp add: appendTransmitBytes_def assignReceiveBytes_def append_int64_def
      roomy_def laptopMemory_def emptySlice_def elems_def Let_def numeral_eq_Suc)

theorem snapshot_twice_witness:
  "snapshotView (snd (fetchLanStatistics doubling 1700000000000 (Inr oneRowPage) laptopMemory))
     = snapshotView (snd (fetchLanStatistics roomy 1700000000000 (Inr oneRowPage) laptopMemory)) \<and>
   arrays (snd (fetchLanStatistics doubling 1700000000000 (Inr oneRowPage) laptopMemory))
     \<noteq> arrays (snd (fetchLanStatistics roomy 1700000000000 (Inr oneRowPage) laptopMemory)) \<and>
   fst (dataHandler plainQuote
          (snd (fetchLanStatistics doubling 1700000000000 (Inr oneRowPage) laptopMemory)))
     = fst (dataHandler plainQuote
          (snd (fetchLanStatistics roomy 1700000000000 (Inr oneRowPage) laptopMemory)))"
  using snapshot_twice_same_bytes
    [of plainQuote "snd (fetchLanStatistics doubling 1700000000000 (Inr oneRowPage) laptopMemory)"
        "snd (fetchLanStatistics roomy 1700000000000 (Inr oneRowPage) laptopMemory)"]
  by (simp add: snapshotView_oneRowPage arrays_oneRowPage_doubling arrays_oneRowPage_roomy)

end
